theory Spec2Isabelle
  imports Main "HOL-Library.AList"
begin

section \<open>Python values, exceptions and containers\<close>

text \<open>
  The exceptions the library can raise.  \<open>InvalidDateError\<close> is the library's own; the
  others are the Python built-ins raised by a failed \<^verbatim>\<open>assert\<close>, an arithmetic or
  comparison on \<^verbatim>\<open>None\<close>, a missing dictionary key, a failed unpacking and an
  out-of-range list index.
\<close>

datatype error = InvalidDateError | AssertionError | TypeError | KeyError | ValueError | IndexError

text \<open>
  A Python value as far as \<^verbatim>\<open>isinstance(v, int)\<close> can tell: an instance of \<^verbatim>\<open>int\<close>
  (\<^verbatim>\<open>bool\<close> is a subclass of \<^verbatim>\<open>int\<close>, so \<^verbatim>\<open>True\<close> and \<^verbatim>\<open>False\<close> are the
  integers 1 and 0 here), or any other object, kept by the name of its type
  (\<^verbatim>\<open>get_type_name\<close>).
\<close>

datatype pyval = IntV int | OtherV string

text \<open>\<^verbatim>\<open>d[k]\<close> on a dictionary (kept as an association list in insertion order).\<close>

definition getitem :: "('k \<times> 'v) list \<Rightarrow> 'k \<Rightarrow> error + 'v" where
  "getitem d k = (case map_of d k of None \<Rightarrow> Inl KeyError | Some v \<Rightarrow> Inr v)"

text \<open>\<^verbatim>\<open>xs[i]\<close> on a list, for an index that is not negative.\<close>

definition index :: "'a list \<Rightarrow> nat \<Rightarrow> error + 'a" where
  "index xs i = (if i < length xs then Inr (xs ! i) else Inl IndexError)"

text \<open>\<^verbatim>\<open>xs[a:b]\<close> for \<open>0 \<le> a\<close> and \<open>0 \<le> b\<close>.\<close>

definition slice :: "'a list \<Rightarrow> int \<Rightarrow> int \<Rightarrow> 'a list" where
  "slice xs a b = drop (nat a) (take (nat b) xs)"

text \<open>
  \<^verbatim>\<open>range(start, stop, step)\<close> as the list a \<^verbatim>\<open>for\<close> loop walks.  The library only
  calls it with the steps 1, 4 and -4 (a step of 0, for which Python raises, is the empty
  list here).
\<close>

function py_range :: "int \<Rightarrow> int \<Rightarrow> int \<Rightarrow> int list" where
  "py_range start stop step =
     (if 0 < step \<and> start < stop then start # py_range (start + step) stop step
      else if step < 0 \<and> stop < start then start # py_range (start + step) stop step
      else [])"
  by pat_completeness auto
termination
  by (relation "measure (\<lambda>(start, stop, step). nat (if 0 < step then stop - start else start - stop))") auto

declare py_range.simps [simp del]

section \<open>constants.py\<close>

definition MONDAY :: string where "MONDAY = ''Monday''"
definition TUESDAY :: string where "TUESDAY = ''Tuesday''"
definition WEDNESDAY :: string where "WEDNESDAY = ''Wednesday''"
definition THURSDAY :: string where "THURSDAY = ''Thursday''"
definition FRIDAY :: string where "FRIDAY = ''Friday''"
definition SATURDAY :: string where "SATURDAY = ''Saturday''"
definition SUNDAY :: string where "SUNDAY = ''Sunday''"

definition DAY_NUMBER_TO_NAME_MAPPER :: "(int \<times> string) list" where
  "DAY_NUMBER_TO_NAME_MAPPER =
     [(1, MONDAY), (2, TUESDAY), (3, WEDNESDAY), (4, THURSDAY), (5, FRIDAY), (6, SATURDAY),
      (7, SUNDAY)]"

definition NUM_DAYS_IN_WEEK :: int where "NUM_DAYS_IN_WEEK = 7"
definition NUM_MONTHS_IN_YEAR :: int where "NUM_MONTHS_IN_YEAR = 12"
definition NUM_DAYS_IN_NON_LEAP_YEAR :: int where "NUM_DAYS_IN_NON_LEAP_YEAR = 365"
definition NUM_DAYS_IN_LEAP_YEAR :: int where "NUM_DAYS_IN_LEAP_YEAR = 366"

definition DAY_COUNTS_IN_NON_LEAP_YEAR_BY_MONTH :: "int list" where
  "DAY_COUNTS_IN_NON_LEAP_YEAR_BY_MONTH = [31, 28, 31, 30, 31, 30, 31, 31, 30, 31, 30, 31]"

definition DAY_COUNTS_IN_LEAP_YEAR_BY_MONTH :: "int list" where
  "DAY_COUNTS_IN_LEAP_YEAR_BY_MONTH = [31, 29, 31, 30, 31, 30, 31, 31, 30, 31, 30, 31]"

definition YEARS_HAVING_JANUARY_1ST_AS_SATURDAY :: "int list" where
  "YEARS_HAVING_JANUARY_1ST_AS_SATURDAY =
     [28, 248, 524, 744, 980, 1228, 1448, 1684, 1916, 2000, 2084, 2276, 2400, 2676, 2952]"

section \<open>utils.py\<close>

text \<open>
  \<^verbatim>\<open>argmin\<close>: the loop walks \<^verbatim>\<open>enumerate(iterable[1:])\<close> with \<^verbatim>\<open>idx += 1\<close>, keeping
  the pair \<^verbatim>\<open>(low_idx, low_item)\<close>; \<^verbatim>\<open>iterable[0]\<close> raises on the empty list.
\<close>

fun argmin :: "int list \<Rightarrow> error + nat" where
  "argmin [] = Inl IndexError"
| "argmin (x # xs) =
     Inr (fst (fold (\<lambda>(idx, item) (low_idx, low_item).
                       if item < low_item then (idx + 1, item) else (low_idx, low_item))
                    (enumerate 0 xs) (0, x)))"

definition is_leap_year :: "int \<Rightarrow> bool" where
  "is_leap_year y =
     (if y mod 4 \<noteq> 0 then False
      else if y mod 100 \<noteq> 0 then True
      else (if y mod 400 = 0 then True else False))"

definition get_days_count_in_year :: "int \<Rightarrow> int" where
  "get_days_count_in_year y =
     (if is_leap_year y then NUM_DAYS_IN_LEAP_YEAR else NUM_DAYS_IN_NON_LEAP_YEAR)"

definition get_days_count_between_months :: "int \<Rightarrow> int \<Rightarrow> int \<Rightarrow> error + int" where
  "get_days_count_between_months y start_month end_month =
     (if \<not> ((1 \<le> start_month \<and> start_month \<le> 12) \<and> (1 \<le> end_month \<and> end_month \<le> 12))
      then Inl AssertionError
      else if \<not> start_month \<le> end_month then Inl AssertionError
      else
        let includes_february = (2 \<in> set (py_range start_month (end_month + 1) 1));
            leap = (if includes_february then is_leap_year y else False)
        in if leap
           then Inr (sum_list (slice DAY_COUNTS_IN_LEAP_YEAR_BY_MONTH (start_month - 1) end_month))
           else Inr (sum_list (slice DAY_COUNTS_IN_NON_LEAP_YEAR_BY_MONTH (start_month - 1) end_month)))"

definition get_days_in_month :: "int \<Rightarrow> int \<Rightarrow> error + int" where
  "get_days_in_month y m = get_days_count_between_months y m m"

definition get_days_remaining_in_month :: "int \<Rightarrow> int \<Rightarrow> int \<Rightarrow> error + int" where
  "get_days_remaining_in_month y m d =
     (case get_days_in_month y m of Inl e \<Rightarrow> Inl e | Inr n \<Rightarrow> Inr (n - d))"

definition get_days_per_month_mapper :: "int \<Rightarrow> (int \<times> int) list" where
  "get_days_per_month_mapper y =
     [(1, 31), (2, if is_leap_year y then 29 else 28), (3, 31), (4, 30), (5, 31), (6, 30),
      (7, 31), (8, 31), (9, 30), (10, 31), (11, 30), (12, 31)]"

definition BASE_MAPPER :: "(int \<times> int) list" where
  "BASE_MAPPER =
     [(1, 31), (2, 28), (3, 31), (4, 30), (5, 31), (6, 30),
      (7, 31), (8, 31), (9, 30), (10, 31), (11, 30), (12, 31)]"

text \<open>
  The loop of \<^verbatim>\<open>get_days_per_month_mapper_for_multiple_years\<close> walks the sorted years
  and assigns \<^verbatim>\<open>full_mapper[year]\<close> a copy of the base mapper, with February set to 29
  in a leap year.
\<close>

definition get_days_per_month_mapper_for_multiple_years ::
    "int list \<Rightarrow> (int \<times> (int \<times> int) list) list" where
  "get_days_per_month_mapper_for_multiple_years years =
     fold (\<lambda>y full_mapper.
             AList.update y (if is_leap_year y then AList.update 2 29 BASE_MAPPER else BASE_MAPPER)
               full_mapper)
          (sort years) []"

text \<open>
  \<^verbatim>\<open>days_per_month_mapper.get(current_year, {}).get(current_month, None)\<close>: \<open>None\<close> is
  Python's \<^verbatim>\<open>None\<close>.
\<close>

definition total_days_in_month_of ::
    "(int \<times> (int \<times> int) list) list \<Rightarrow> int \<Rightarrow> int \<Rightarrow> int option" where
  "total_days_in_month_of days_per_month_mapper current_year current_month =
     (case map_of days_per_month_mapper current_year of
        None \<Rightarrow> map_of [] current_month
      | Some months \<Rightarrow> map_of months current_month)"

section \<open>day\_of\_week.py\<close>

definition get_reference_date_details :: "int \<Rightarrow> error + int \<times> int \<times> string" where
  "get_reference_date_details y =
     (let year_differences = map (\<lambda>y'. \<bar>y - y'\<bar>) YEARS_HAVING_JANUARY_1ST_AS_SATURDAY
      in case argmin year_differences of
           Inl e \<Rightarrow> Inl e
         | Inr i \<Rightarrow>
             (case index YEARS_HAVING_JANUARY_1ST_AS_SATURDAY i of
                Inl e \<Rightarrow> Inl e
              | Inr reference_year \<Rightarrow>
                  if \<not> is_leap_year reference_year then Inl AssertionError
                  else (case getitem DAY_NUMBER_TO_NAME_MAPPER 6 of
                          Inl e \<Rightarrow> Inl e
                        | Inr reference_dow_name \<Rightarrow> Inr (reference_year, 6, reference_dow_name))))"

text \<open>
  The two \<^verbatim>\<open>for\<close> loops of \<^verbatim>\<open>_get_day_of_week_on_january_1st\<close> count, along the
  stepped range, the leap years other than \<open>skip\<close> (the target year when walking forward,
  the reference year when walking backward).
\<close>

definition count_leap_years :: "int list \<Rightarrow> int \<Rightarrow> int" where
  "count_leap_years years_walked skip =
     fold (\<lambda>y' num_leap_years_between.
             if is_leap_year y' \<and> y' \<noteq> skip then num_leap_years_between + 1
             else num_leap_years_between)
          years_walked 0"

definition get_day_of_week_on_january_1st :: "int \<Rightarrow> error + int \<times> string" where
  "get_day_of_week_on_january_1st y =
     (case get_reference_date_details y of
        Inl e \<Rightarrow> Inl e
      | Inr (reference_year, reference_dow_number, reference_dow_name) \<Rightarrow>
          if y = reference_year then Inr (reference_dow_number, reference_dow_name)
          else
            let is_year_ahead_of_reference = (reference_year < y);
                num_years_between = \<bar>y - reference_year\<bar>;
                step_size = (if is_year_ahead_of_reference then 4 else - 4);
                num_days_away =
                  (if is_year_ahead_of_reference
                   then (num_years_between
                          + count_leap_years (py_range reference_year (y + 1) step_size) y)
                        mod NUM_DAYS_IN_WEEK
                   else NUM_DAYS_IN_WEEK
                        - ((num_years_between
                             + count_leap_years (py_range reference_year (y - 1) step_size)
                                 reference_year)
                           mod NUM_DAYS_IN_WEEK));
                dow_number0 = (reference_dow_number + num_days_away) mod NUM_DAYS_IN_WEEK;
                dow_number = (if dow_number0 = 0 then NUM_DAYS_IN_WEEK else dow_number0)
            in case getitem DAY_NUMBER_TO_NAME_MAPPER dow_number of
                 Inl e \<Rightarrow> Inl e
               | Inr dow_name \<Rightarrow> Inr (dow_number, dow_name))"

definition MONTH_TO_FIRST_SAME_DAY_MAPPER :: "(int \<times> int) list" where
  "MONTH_TO_FIRST_SAME_DAY_MAPPER =
     [(1, 1), (2, 5), (3, 5), (4, 2), (5, 7), (6, 4), (7, 2), (8, 6), (9, 3), (10, 1),
      (11, 5), (12, 3)]"

definition get_day_of_week :: "int \<Rightarrow> int \<Rightarrow> int \<Rightarrow> error + string" where
  "get_day_of_week y m d =
     (case get_day_of_week_on_january_1st y of
        Inl e \<Rightarrow> Inl e
      | Inr (jan1st_dow_number, jan1st_dow_name) \<Rightarrow>
          (case getitem MONTH_TO_FIRST_SAME_DAY_MAPPER m of
             Inl e \<Rightarrow> Inl e
           | Inr first_same_day \<Rightarrow>
               let num_days_away0 = (d - first_same_day) mod NUM_DAYS_IN_WEEK;
                   num_days_away =
                     (if num_days_away0 < 0 then num_days_away0 + NUM_DAYS_IN_WEEK
                      else num_days_away0);
                   days_difference0 = jan1st_dow_number + num_days_away;
                   days_difference =
                     (if is_leap_year y \<and> 2 < m then days_difference0 + 1 else days_difference0);
                   dow_number0 = days_difference mod NUM_DAYS_IN_WEEK;
                   dow_number = (if dow_number0 = 0 then NUM_DAYS_IN_WEEK else dow_number0)
               in getitem DAY_NUMBER_TO_NAME_MAPPER dow_number))"

section \<open>dates.py: the fields of a Date and their validation\<close>

text \<open>
  An instance of \<^verbatim>\<open>Date\<close> is its three slots \<^verbatim>\<open>_year\<close>, \<^verbatim>\<open>_month\<close> and
  \<^verbatim>\<open>_day\<close>, which hold whatever the constructor or a setter was given.
\<close>

record date_obj =
  p_year :: pyval
  p_month :: pyval
  p_day :: pyval

text \<open>
  \<^verbatim>\<open>Date._validate_date\<close>: the type check on all three slots first, then the checks
  on the values, in the source's order.
\<close>

fun validate_fields :: "pyval \<Rightarrow> pyval \<Rightarrow> pyval \<Rightarrow> error + unit" where
  "validate_fields (IntV y) (IntV m) (IntV d) =
     (if y \<le> 0 then Inl InvalidDateError
      else if \<not> (1 \<le> m \<and> m \<le> 12) then Inl InvalidDateError
      else if m \<in> set [1, 3, 5, 7, 8, 10, 12] \<and> \<not> (1 \<le> d \<and> d \<le> 31) then Inl InvalidDateError
      else if m \<in> set [4, 6, 9, 11] \<and> \<not> (1 \<le> d \<and> d \<le> 30) then Inl InvalidDateError
      else if m \<in> set [2]
        then (if (is_leap_year y \<and> \<not> (1 \<le> d \<and> d \<le> 29))
                 \<or> (\<not> is_leap_year y \<and> \<not> (1 \<le> d \<and> d \<le> 28))
              then Inl InvalidDateError else Inr ())
      else Inr ())"
| "validate_fields _ _ _ = Inl InvalidDateError"

definition validate_date :: "date_obj \<Rightarrow> error + unit" where
  "validate_date date_obj = validate_fields (p_year date_obj) (p_month date_obj) (p_day date_obj)"

text \<open>
  The setters store the new value in the slot and then validate the instance: the
  instance is passed in and returned, with the outcome of the call.
\<close>

definition set_year :: "date_obj \<Rightarrow> pyval \<Rightarrow> date_obj \<times> (error + unit)" where
  "set_year self v = (let self' = self\<lparr>p_year := v\<rparr> in (self', validate_date self'))"

definition set_month :: "date_obj \<Rightarrow> pyval \<Rightarrow> date_obj \<times> (error + unit)" where
  "set_month self v = (let self' = self\<lparr>p_month := v\<rparr> in (self', validate_date self'))"

definition set_day :: "date_obj \<Rightarrow> pyval \<Rightarrow> date_obj \<times> (error + unit)" where
  "set_day self v = (let self' = self\<lparr>p_day := v\<rparr> in (self', validate_date self'))"

section \<open>dates.py: the methods that only read\<close>

text \<open>
  The comparison operators, \<^verbatim>\<open>difference\<close> and the properties read the three fields
  of their receiver and of \<^verbatim>\<open>other\<close> and return a number, a string or a truth value.
  They are modelled on the values of the fields, for instances whose slots hold integers
  (every instance the constructor has accepted): a \<open>date\<close> is that triple of integers.
\<close>

record date =
  year :: int
  month :: int
  day :: int

text \<open>\<^verbatim>\<open>Date(year=y, month=m, day=d)\<close> for integer arguments, as a value.\<close>

definition Date :: "int \<Rightarrow> int \<Rightarrow> int \<Rightarrow> error + date" where
  "Date y m d =
     (case validate_date \<lparr>p_year = IntV y, p_month = IntV m, p_day = IntV d\<rparr> of
        Inl e \<Rightarrow> Inl e
      | Inr u \<Rightarrow> Inr \<lparr>year = y, month = m, day = d\<rparr>)"

definition Date_eq :: "date \<Rightarrow> date \<Rightarrow> bool" where
  "Date_eq self other = (year self = year other \<and> month self = month other \<and> day self = day other)"

definition Date_ne :: "date \<Rightarrow> date \<Rightarrow> bool" where
  "Date_ne self other = (year self \<noteq> year other \<or> month self \<noteq> month other \<or> day self \<noteq> day other)"

definition Date_gt :: "date \<Rightarrow> date \<Rightarrow> bool" where
  "Date_gt self other =
     (year other < year self
      \<or> (year self = year other \<and> (month other < month self \<or> day other < day self)))"

definition Date_ge :: "date \<Rightarrow> date \<Rightarrow> bool" where
  "Date_ge self other =
     (year other \<le> year self \<and> month other \<le> month self \<and> day other \<le> day self)"

definition Date_lt :: "date \<Rightarrow> date \<Rightarrow> bool" where
  "Date_lt self other =
     (year self < year other
      \<or> (year self = year other \<and> (month self < month other \<or> day self < day other)))"

definition Date_le :: "date \<Rightarrow> date \<Rightarrow> bool" where
  "Date_le self other =
     (year self \<le> year other \<and> month self \<le> month other \<and> day self \<le> day other)"

definition copy :: "date \<Rightarrow> error + date" where
  "copy self = Date (year self) (month self) (day self)"

definition days_since_start_of_year :: "date \<Rightarrow> error + int" where
  "days_since_start_of_year self =
     (if month self = 1 then Inr (day self)
      else (case get_days_count_between_months (year self) 1 (month self - 1) of
              Inl e \<Rightarrow> Inl e
            | Inr n \<Rightarrow> Inr (n + day self)))"

text \<open>
  The loop of \<^verbatim>\<open>days_till_end_of_year\<close> over the reversed items of the month mapper,
  with its \<^verbatim>\<open>break\<close> at the receiver's month.
\<close>

fun days_till_end_of_year_loop :: "(int \<times> int) list \<Rightarrow> date \<Rightarrow> int \<Rightarrow> int" where
  "days_till_end_of_year_loop [] self num_days = num_days"
| "days_till_end_of_year_loop ((month_number, num_days_in_month) # items) self num_days =
     (if month_number = month self then num_days + (num_days_in_month - day self)
      else days_till_end_of_year_loop items self (num_days + num_days_in_month))"

definition days_till_end_of_year :: "date \<Rightarrow> int" where
  "days_till_end_of_year self =
     days_till_end_of_year_loop (rev (get_days_per_month_mapper (year self))) self 0"

definition difference_between_dates_in_same_year :: "date \<Rightarrow> date \<Rightarrow> date \<Rightarrow> error + int" where
  "difference_between_dates_in_same_year self small big =
     (if \<not> Date_lt small big then Inl AssertionError
      else if \<not> year small = year big then Inl AssertionError
      else if month small = month big then Inr (0 + (day big - day small))
      else if month small + 1 = month big then
        (case get_days_remaining_in_month (year self) (month small) (day small) of
           Inl e \<Rightarrow> Inl e
         | Inr remaining \<Rightarrow> Inr (0 + remaining + day big))
      else
        (case get_days_remaining_in_month (year self) (month small) (day small) of
           Inl e \<Rightarrow> Inl e
         | Inr remaining \<Rightarrow>
             (case get_days_count_between_months (year self) (month small + 1) (month big - 1) of
                Inl e \<Rightarrow> Inl e
              | Inr between \<Rightarrow> Inr (0 + remaining + between + day big))))"

text \<open>
  The \<^verbatim>\<open>while True\<close> loop of \<^verbatim>\<open>_get_years_between_dates\<close> appends
  \<^verbatim>\<open>years[-1] + 1\<close> while it does not pass \<^verbatim>\<open>big.year\<close>; the list is never empty.
\<close>

function get_years_between_dates_loop :: "int list \<Rightarrow> int \<Rightarrow> int list" where
  "get_years_between_dates_loop years big_year =
     (let last_year = last years
      in if last_year + 1 \<le> big_year
         then get_years_between_dates_loop (years @ [last_year + 1]) big_year
         else years)"
  by pat_completeness auto
termination
  by (relation "measure (\<lambda>(years, big_year). nat (big_year - last years))") auto

declare get_years_between_dates_loop.simps [simp del]

definition get_years_between_dates :: "date \<Rightarrow> date \<Rightarrow> error + int list" where
  "get_years_between_dates small big =
     (if \<not> Date_lt small big then Inl AssertionError
      else if year small = year big then Inr [year small]
      else Inr (get_years_between_dates_loop [year small] (year big)))"

text \<open>
  \<^verbatim>\<open>_, *years_in_between, _ = ...\<close> needs two elements at least, and raises
  \<^verbatim>\<open>ValueError\<close> otherwise.
\<close>

definition difference_between_dates_in_different_years :: "date \<Rightarrow> date \<Rightarrow> error + int" where
  "difference_between_dates_in_different_years small big =
     (if \<not> Date_lt small big then Inl AssertionError
      else if \<not> year small \<noteq> year big then Inl AssertionError
      else (case get_years_between_dates small big of
              Inl e \<Rightarrow> Inl e
            | Inr years \<Rightarrow>
                if length years < 2 then Inl ValueError
                else
                  let years_in_between = butlast (tl years);
                      whole_years =
                        (if years_in_between \<noteq> []
                         then sum_list (map get_days_count_in_year years_in_between) else 0)
                  in (case days_since_start_of_year big of
                        Inl e \<Rightarrow> Inl e
                      | Inr since_start \<Rightarrow>
                          Inr (0 + days_till_end_of_year small + whole_years + since_start))))"

definition difference :: "date \<Rightarrow> date \<Rightarrow> error + int" where
  "difference self other =
     (if Date_eq self other then Inr 0
      else
        (case (if Date_lt self other then (copy self, copy other) else (copy other, copy self)) of
           (Inl e, c) \<Rightarrow> Inl e
         | (Inr small, Inl e) \<Rightarrow> Inl e
         | (Inr small, Inr big) \<Rightarrow>
             (case (if year small = year big
                    then difference_between_dates_in_same_year self small big
                    else difference_between_dates_in_different_years small big) of
                Inl e \<Rightarrow> Inl e
              | Inr days_difference_abs \<Rightarrow>
                  Inr (if Date_lt self other then days_difference_abs * - 1
                       else days_difference_abs))))"

definition abs_difference :: "date \<Rightarrow> date \<Rightarrow> error + int" where
  "abs_difference self other =
     (case difference self other of Inl e \<Rightarrow> Inl e | Inr n \<Rightarrow> Inr \<bar>n\<bar>)"

definition day_of_week :: "date \<Rightarrow> error + string" where
  "day_of_week self = get_day_of_week (year self) (month self) (day self)"

section \<open>dates.py: the constructor and the methods that return new instances\<close>

text \<open>
  \<^verbatim>\<open>add\<close>, \<^verbatim>\<open>subtract\<close> and the internal shifters build their result with
  \<^verbatim>\<open>Date(...)\<close>.  To tell a new instance from the receiver, instances live in a store:
  a list of slots, an instance being its position in the list.  \<^verbatim>\<open>Date(...)\<close> appends
  a new instance, fills its slots and validates it; when validation raises, no reference
  to that instance is returned.
\<close>

type_synonym heap = "date_obj list"

definition Date_init :: "heap \<Rightarrow> pyval \<Rightarrow> pyval \<Rightarrow> pyval \<Rightarrow> heap \<times> (error + nat)" where
  "Date_init h y m d =
     (let self = length h;
          h' = h @ [\<lparr>p_year = y, p_month = m, p_day = d\<rparr>]
      in (h', case validate_date (h' ! self) of Inl e \<Rightarrow> Inl e | Inr u \<Rightarrow> Inr self))"

text \<open>
  The getters \<^verbatim>\<open>self.year\<close>, \<^verbatim>\<open>self.month\<close>, \<^verbatim>\<open>self.day\<close> of a receiver, read for
  integer arithmetic.  The shifters are modelled for receivers whose slots hold integers;
  for a slot that holds anything else (which only a failed setter can leave behind), and
  for a position that is no instance, the model stops with \<open>TypeError\<close>.
\<close>

fun as_date :: "pyval \<Rightarrow> pyval \<Rightarrow> pyval \<Rightarrow> error + date" where
  "as_date (IntV y) (IntV m) (IntV d) = Inr \<lparr>year = y, month = m, day = d\<rparr>"
| "as_date _ _ _ = Inl TypeError"

definition fields_of :: "heap \<Rightarrow> nat \<Rightarrow> error + date" where
  "fields_of h self =
     (if self < length h
      then as_date (p_year (h ! self)) (p_month (h ! self)) (p_day (h ! self))
      else Inl TypeError)"

definition increment_year_and_month :: "int \<Rightarrow> int \<Rightarrow> int \<times> int" where
  "increment_year_and_month y m = (if m = 12 then (y + 1, 1) else (y, m + 1))"

definition decrement_year_and_month :: "int \<Rightarrow> int \<Rightarrow> int \<times> int" where
  "decrement_year_and_month y m = (if m = 1 then (y - 1, 12) else (y, m - 1))"

definition subtract_years :: "heap \<Rightarrow> nat \<Rightarrow> int \<Rightarrow> heap \<times> (error + nat)" where
  "subtract_years h self years =
     (if \<not> 0 \<le> years then (h, Inl AssertionError)
      else (case fields_of h self of
              Inl e \<Rightarrow> (h, Inl e)
            | Inr s \<Rightarrow>
                (case (if month s = 2 \<and> day s = 29
                       then (if is_leap_year (year s - years) then (2, 29) else (2, 28))
                       else (month s, day s)) of
                   (m, d) \<Rightarrow> Date_init h (IntV (year s - years)) (IntV m) (IntV d))))"

definition SUBTRACT_MONTHS_MAPPER :: "(int \<times> int) list" where
  "SUBTRACT_MONTHS_MAPPER =
     [(0, 12), (- 1, 11), (- 2, 10), (- 3, 9), (- 4, 8), (- 5, 7), (- 6, 6), (- 7, 5),
      (- 8, 4), (- 9, 3), (- 10, 2), (- 11, 1)]"

definition subtract_months :: "heap \<Rightarrow> nat \<Rightarrow> int \<Rightarrow> heap \<times> (error + nat)" where
  "subtract_months h self months =
     (if \<not> 0 \<le> months then (h, Inl AssertionError)
      else
        let years = months div NUM_MONTHS_IN_YEAR;
            months' = months mod NUM_MONTHS_IN_YEAR
        in (case subtract_years h self years of
              (h1, Inl e) \<Rightarrow> (h1, Inl e)
            | (h1, Inr date_new) \<Rightarrow>
                (case fields_of h1 date_new of
                   Inl e \<Rightarrow> (h1, Inl e)
                 | Inr dn \<Rightarrow>
                     let m = month dn - months'
                     in if m \<le> 0
                        then (case getitem SUBTRACT_MONTHS_MAPPER m of
                                Inl e \<Rightarrow> (h1, Inl e)
                              | Inr m' \<Rightarrow>
                                  Date_init h1 (IntV (year dn - 1)) (IntV m') (IntV (day dn)))
                        else Date_init h1 (IntV (year dn)) (IntV m) (IntV (day dn)))))"

text \<open>
  The \<^verbatim>\<open>while True\<close> loop of \<^verbatim>\<open>_subtract_days\<close> on its local variables
  \<^verbatim>\<open>days\<close>, \<^verbatim>\<open>current_year\<close> and \<^verbatim>\<open>current_month\<close>.  It yields the arguments
  of the \<^verbatim>\<open>Date(...)\<close> call that ends the method: the one inside the loop
  (\<^verbatim>\<open>days == 0\<close>, where \<^verbatim>\<open>total_days_in_month\<close> may be \<^verbatim>\<open>None\<close>) or the one after
  the \<^verbatim>\<open>break\<close>.  When neither \<^verbatim>\<open>days > total_days_in_month\<close> nor
  \<^verbatim>\<open>days < total_days_in_month\<close> holds, the body changes nothing and the loop goes
  round again.  A loop that never ends is the value \<open>None\<close>.
\<close>

partial_function (option) subtract_days_loop ::
    "(int \<times> (int \<times> int) list) list \<Rightarrow> int \<Rightarrow> int \<Rightarrow> int \<Rightarrow> (error + int \<times> int \<times> pyval) option" where
  "subtract_days_loop days_per_month_mapper days current_year current_month =
     (if days = 0
      then Some (Inr (current_year, current_month,
                      (case total_days_in_month_of days_per_month_mapper current_year current_month of
                         None \<Rightarrow> OtherV ''NoneType''
                       | Some total_days_in_month \<Rightarrow> IntV total_days_in_month)))
      else (case total_days_in_month_of days_per_month_mapper current_year current_month of
              None \<Rightarrow> Some (Inl TypeError)
            | Some total_days_in_month \<Rightarrow>
                if total_days_in_month < days
                then (case decrement_year_and_month current_year current_month of
                        (y', m') \<Rightarrow>
                          subtract_days_loop days_per_month_mapper (days - total_days_in_month) y' m')
                else if days < total_days_in_month
                then Some (Inr (current_year, current_month, IntV (total_days_in_month - days)))
                else subtract_days_loop days_per_month_mapper days current_year current_month))"

declare subtract_days_loop.simps [code]

definition subtract_days :: "heap \<Rightarrow> nat \<Rightarrow> int \<Rightarrow> (heap \<times> (error + nat)) option" where
  "subtract_days h self days =
     (if \<not> 0 \<le> days then Some (h, Inl AssertionError)
      else (case fields_of h self of
              Inl e \<Rightarrow> Some (h, Inl e)
            | Inr s \<Rightarrow>
                let days_per_month_mapper =
                      get_days_per_month_mapper_for_multiple_years
                        (py_range (year s - (days div 366) - 1) (year s + 1) 1)
                in if days < day s
                   then Some (Date_init h (IntV (year s)) (IntV (month s)) (IntV (day s - days)))
                   else (case decrement_year_and_month (year s) (month s) of
                           (current_year, current_month) \<Rightarrow>
                             (case subtract_days_loop days_per_month_mapper (days - day s)
                                     current_year current_month of
                                None \<Rightarrow> None
                              | Some (Inl e) \<Rightarrow> Some (h, Inl e)
                              | Some (Inr (y', m', d')) \<Rightarrow>
                                  Some (Date_init h (IntV y') (IntV m') d')))))"

definition add_years :: "heap \<Rightarrow> nat \<Rightarrow> int \<Rightarrow> heap \<times> (error + nat)" where
  "add_years h self years =
     (if \<not> 0 \<le> years then (h, Inl AssertionError)
      else (case fields_of h self of
              Inl e \<Rightarrow> (h, Inl e)
            | Inr s \<Rightarrow>
                (case (if month s = 2 \<and> day s = 29
                       then (if is_leap_year (year s + years) then (2, 29) else (3, 1))
                       else (month s, day s)) of
                   (m, d) \<Rightarrow> Date_init h (IntV (year s + years)) (IntV m) (IntV d))))"

definition add_months :: "heap \<Rightarrow> nat \<Rightarrow> int \<Rightarrow> heap \<times> (error + nat)" where
  "add_months h self months =
     (if \<not> 0 \<le> months then (h, Inl AssertionError)
      else
        let years = months div NUM_MONTHS_IN_YEAR;
            months' = months mod NUM_MONTHS_IN_YEAR
        in (case add_years h self years of
              (h1, Inl e) \<Rightarrow> (h1, Inl e)
            | (h1, Inr date_new) \<Rightarrow>
                (case fields_of h1 date_new of
                   Inl e \<Rightarrow> (h1, Inl e)
                 | Inr dn \<Rightarrow>
                     let m0 = (month dn + months') mod NUM_MONTHS_IN_YEAR;
                         m = (if m0 = 0 then NUM_MONTHS_IN_YEAR else m0);
                         y = (if NUM_MONTHS_IN_YEAR < month dn + months' then year dn + 1
                              else year dn)
                     in Date_init h1 (IntV y) (IntV m) (IntV (day dn)))))"

text \<open>
  The \<^verbatim>\<open>while True\<close> loop of \<^verbatim>\<open>_add_days\<close>; it yields the local variables at its
  \<^verbatim>\<open>break\<close>.
\<close>

partial_function (option) add_days_loop ::
    "(int \<times> (int \<times> int) list) list \<Rightarrow> int \<Rightarrow> int \<Rightarrow> int \<Rightarrow> (error + int \<times> int \<times> int) option" where
  "add_days_loop days_per_month_mapper days current_year current_month =
     (case total_days_in_month_of days_per_month_mapper current_year current_month of
        None \<Rightarrow> Some (Inl TypeError)
      | Some total_days_in_month \<Rightarrow>
          if total_days_in_month < days
          then (case increment_year_and_month current_year current_month of
                  (y', m') \<Rightarrow> add_days_loop days_per_month_mapper (days - total_days_in_month) y' m')
          else if days \<le> total_days_in_month
          then Some (Inr (current_year, current_month, days))
          else add_days_loop days_per_month_mapper days current_year current_month)"

declare add_days_loop.simps [code]

definition add_days :: "heap \<Rightarrow> nat \<Rightarrow> int \<Rightarrow> (heap \<times> (error + nat)) option" where
  "add_days h self days =
     (if \<not> 0 \<le> days then Some (h, Inl AssertionError)
      else (case fields_of h self of
              Inl e \<Rightarrow> Some (h, Inl e)
            | Inr s \<Rightarrow>
                let days_per_month_mapper =
                      get_days_per_month_mapper_for_multiple_years
                        (py_range (year s) (year s + (days div 366) + 2) 1)
                in (case total_days_in_month_of days_per_month_mapper (year s) (month s) of
                      None \<Rightarrow> Some (h, Inl TypeError)
                    | Some total_days_in_month \<Rightarrow>
                        let days_remaining_in_month = total_days_in_month - day s
                        in if days \<le> days_remaining_in_month
                           then Some (Date_init h (IntV (year s)) (IntV (month s)) (IntV (day s + days)))
                           else (case increment_year_and_month (year s) (month s) of
                                   (current_year, current_month) \<Rightarrow>
                                     (case add_days_loop days_per_month_mapper
                                             (days - days_remaining_in_month)
                                             current_year current_month of
                                        None \<Rightarrow> None
                                      | Some (Inl e) \<Rightarrow> Some (h, Inl e)
                                      | Some (Inr (y', m', d')) \<Rightarrow>
                                          Some (Date_init h (IntV y') (IntV m') (IntV d')))))))"

definition add :: "heap \<Rightarrow> nat \<Rightarrow> int \<Rightarrow> int \<Rightarrow> int \<Rightarrow> (heap \<times> (error + nat)) option" where
  "add h self years months days =
     (case add_years h self years of
        (h1, Inl e) \<Rightarrow> Some (h1, Inl e)
      | (h1, Inr r1) \<Rightarrow>
          (case add_months h1 r1 months of
             (h2, Inl e) \<Rightarrow> Some (h2, Inl e)
           | (h2, Inr r2) \<Rightarrow> add_days h2 r2 days))"

definition subtract :: "heap \<Rightarrow> nat \<Rightarrow> int \<Rightarrow> int \<Rightarrow> int \<Rightarrow> (heap \<times> (error + nat)) option" where
  "subtract h self years months days =
     (case subtract_years h self years of
        (h1, Inl e) \<Rightarrow> Some (h1, Inl e)
      | (h1, Inr r1) \<Rightarrow>
          (case subtract_months h1 r1 months of
             (h2, Inl e) \<Rightarrow> Some (h2, Inl e)
           | (h2, Inr r2) \<Rightarrow> subtract_days h2 r2 days))"

text \<open>
  What a caller sees of a call on a receiver with the integer fields \<open>d\<close>: the store
  holds the receiver alone, and the outcome is the exception raised or the fields of the
  instance returned (\<open>None\<close> when the call never returns).
\<close>

definition receiver :: "date \<Rightarrow> date_obj" where
  "receiver d = \<lparr>p_year = IntV (year d), p_month = IntV (month d), p_day = IntV (day d)\<rparr>"

definition outcome :: "(heap \<times> (error + nat)) option \<Rightarrow> (error + date) option" where
  "outcome r =
     (case r of
        None \<Rightarrow> None
      | Some (h, Inl e) \<Rightarrow> Some (Inl e)
      | Some (h, Inr p) \<Rightarrow> Some (fields_of h p))"

definition add_to :: "date \<Rightarrow> int \<Rightarrow> int \<Rightarrow> int \<Rightarrow> (error + date) option" where
  "add_to d years months days = outcome (add [receiver d] 0 years months days)"

definition subtract_from :: "date \<Rightarrow> int \<Rightarrow> int \<Rightarrow> int \<Rightarrow> (error + date) option" where
  "subtract_from d years months days = outcome (subtract [receiver d] 0 years months days)"

text \<open>
  A call extends the store when the store it leaves agrees with the store it found on
  every instance that was there, and the instance it returns, if any, is a new one.
\<close>

definition extends :: "heap \<Rightarrow> heap \<times> (error + nat) \<Rightarrow> bool" where
  "extends h out =
     (case out of
        (h', res) \<Rightarrow>
          take (length h) h' = h
          \<and> (case res of Inl e \<Rightarrow> True | Inr r \<Rightarrow> length h \<le> r \<and> r < length h'))"

section \<open>The calendar of the specification\<close>

text \<open>
  The definitions of this section follow the words of the specification, not the code:
  they are what the code is compared with.  A leap year is a year divisible by 4, except
  century years not divisible by 400; February has 28 or 29 days, April, June, September
  and November have 30, every other month has 31.
\<close>

definition spec_is_leap_year :: "int \<Rightarrow> bool" where
  "spec_is_leap_year y = (y mod 4 = 0 \<and> (y mod 400 = 0 \<or> y mod 100 \<noteq> 0))"

definition spec_days_in_month :: "int \<Rightarrow> int \<Rightarrow> int" where
  "spec_days_in_month y m =
     (if m = 2 then (if spec_is_leap_year y then 29 else 28)
      else if m \<in> {4, 6, 9, 11} then 30 else 31)"

definition spec_days_in_year :: "int \<Rightarrow> int" where
  "spec_days_in_year y = (if spec_is_leap_year y then 366 else 365)"

text \<open>
  A valid triple: integer fields, a year from 1 on, a month from 1 to 12, a day from 1 to
  the length of that month.
\<close>

fun spec_valid_fields :: "pyval \<Rightarrow> pyval \<Rightarrow> pyval \<Rightarrow> bool" where
  "spec_valid_fields (IntV y) (IntV m) (IntV d) =
     (1 \<le> y \<and> 1 \<le> m \<and> m \<le> 12 \<and> 1 \<le> d \<and> d \<le> spec_days_in_month y m)"
| "spec_valid_fields _ _ _ = False"

definition spec_valid_date :: "date \<Rightarrow> bool" where
  "spec_valid_date a = spec_valid_fields (IntV (year a)) (IntV (month a)) (IntV (day a))"

text \<open>
  The brute-force count of days: the day after a date, and the number of times it must be
  taken to get from one date to another (within a bound on the number of steps).
\<close>

definition spec_next_day :: "date \<Rightarrow> date" where
  "spec_next_day a =
     (if day a < spec_days_in_month (year a) (month a) then a\<lparr>day := day a + 1\<rparr>
      else if month a < 12 then \<lparr>year = year a, month = month a + 1, day = 1\<rparr>
      else \<lparr>year = year a + 1, month = 1, day = 1\<rparr>)"

fun spec_count_days :: "nat \<Rightarrow> date \<Rightarrow> date \<Rightarrow> int \<Rightarrow> int option" where
  "spec_count_days 0 a b n = None"
| "spec_count_days (Suc bound) a b n =
     (if a = b then Some n else spec_count_days bound (spec_next_day a) b (n + 1))"

text \<open>
  The reference weekday: the days of a date are counted from 1 January of year 1 (whole
  years, then whole months, then the day of the month), and the weekday is found from the
  fixed anchor, Saturday 1 January 2000, by the distance in days modulo 7.
\<close>

definition spec_day_number :: "int \<Rightarrow> int \<Rightarrow> int \<Rightarrow> int" where
  "spec_day_number y m d =
     sum_list (map spec_days_in_year [1..y - 1]) + sum_list (map (spec_days_in_month y) [1..m - 1]) + d"

definition spec_weekday_names :: "string list" where
  "spec_weekday_names =
     [''Monday'', ''Tuesday'', ''Wednesday'', ''Thursday'', ''Friday'', ''Saturday'', ''Sunday'']"

definition spec_day_of_week :: "int \<Rightarrow> int \<Rightarrow> int \<Rightarrow> string" where
  "spec_day_of_week y m d =
     spec_weekday_names ! nat ((5 + (spec_day_number y m d - spec_day_number 2000 1 1)) mod 7)"

text \<open>
  The number of leap years among the years 1 to \<open>y\<close>, in closed form; the proofs use
  it to count the days before a year.
\<close>

definition leap_years_up_to :: "int \<Rightarrow> int" where
  "leap_years_up_to y = y div 4 - y div 100 + y div 400"

section \<open>Validation\<close>

lemma is_leap_year_iff: "is_leap_year y = spec_is_leap_year y"
  by (auto simp: is_leap_year_def spec_is_leap_year_def)

lemma month_cases:
  "1 \<le> m \<Longrightarrow> m \<le> 12 \<Longrightarrow>
   m = 1 \<or> m = 2 \<or> m = 3 \<or> m = 4 \<or> m = 5 \<or> m = 6 \<or> m = 7 \<or> m = 8 \<or> m = 9 \<or> m = 10
   \<or> m = 11 \<or> m = (12::int)"
  by arith

lemma validate_fields_int:
  "validate_fields (IntV y) (IntV m) (IntV d) =
     (if 1 \<le> y \<and> 1 \<le> m \<and> m \<le> 12 \<and> 1 \<le> d \<and> d \<le> spec_days_in_month y m
      then Inr () else Inl InvalidDateError)"
proof (cases "1 \<le> m \<and> m \<le> 12")
  case True
  then show ?thesis
    using month_cases[of m]
    by (auto simp: spec_days_in_month_def is_leap_year_iff)
next
  case False
  then show ?thesis by auto
qed

lemma validate_fields_iff:
  "validate_fields y m d = (if spec_valid_fields y m d then Inr () else Inl InvalidDateError)"
proof (cases "\<exists>yi mi di. y = IntV yi \<and> m = IntV mi \<and> d = IntV di")
  case True
  then obtain yi mi di where "y = IntV yi" "m = IntV mi" "d = IntV di" by blast
  then show ?thesis by (simp only: validate_fields_int spec_valid_fields.simps)
next
  case False
  then show ?thesis by (cases y; cases m; cases d) auto
qed

lemma Date_init_eq:
  "Date_init h y m d =
     (h @ [\<lparr>p_year = y, p_month = m, p_day = d\<rparr>],
      if spec_valid_fields y m d then Inr (length h) else Inl InvalidDateError)"
  by (simp add: Date_init_def validate_date_def validate_fields_iff)

text \<open>
  Claim C5.  \<^verbatim>\<open>Date(year, month, day)\<close> stores the three arguments in a new instance;
  it returns that instance exactly when the arguments are a valid triple (integer fields,
  year at least 1, month 1 to 12, day 1 to the length of the month, February having 29
  days in a leap year and 28 otherwise), and raises \<open>InvalidDateError\<close> for every
  other triple.
\<close>

theorem construction_succeeds_iff_valid:
  "Date_init h y m d =
     (h @ [\<lparr>p_year = y, p_month = m, p_day = d\<rparr>],
      if spec_valid_fields y m d then Inr (length h) else Inl InvalidDateError)"
  by (rule Date_init_eq)

section \<open>The setters\<close>

text \<open>
  Claim C2, as stated, fails: the 28 February 2021 is valid, setting its day to 30 raises
  \<open>InvalidDateError\<close>, and the instance is not what it was before the call.
\<close>

theorem setter_changes_state_on_error:
  "validate_date \<lparr>p_year = IntV 2021, p_month = IntV 2, p_day = IntV 28\<rparr> = Inr ()
   \<and> snd (set_day \<lparr>p_year = IntV 2021, p_month = IntV 2, p_day = IntV 28\<rparr> (IntV 30))
        = Inl InvalidDateError
   \<and> fst (set_day \<lparr>p_year = IntV 2021, p_month = IntV 2, p_day = IntV 28\<rparr> (IntV 30))
        \<noteq> \<lparr>p_year = IntV 2021, p_month = IntV 2, p_day = IntV 28\<rparr>"
  by (simp add: set_day_def validate_date_def is_leap_year_def)

text \<open>
  Claim C2, amended.  For every valid instance and every value assigned through the year,
  month or day setter: when the assignment raises \<open>InvalidDateError\<close>, the assigned
  slot holds the rejected value afterwards, the two other slots hold what they held
  before, and the instance no longer validates.
\<close>

theorem setter_raises_after_storing:
  assumes "validate_date self = Inr ()"
  shows "(set_year self v = (self', Inl InvalidDateError) \<longrightarrow>
            p_year self' = v \<and> p_month self' = p_month self \<and> p_day self' = p_day self
            \<and> validate_date self' = Inl InvalidDateError)
       \<and> (set_month self v = (self', Inl InvalidDateError) \<longrightarrow>
            p_year self' = p_year self \<and> p_month self' = v \<and> p_day self' = p_day self
            \<and> validate_date self' = Inl InvalidDateError)
       \<and> (set_day self v = (self', Inl InvalidDateError) \<longrightarrow>
            p_year self' = p_year self \<and> p_month self' = p_month self \<and> p_day self' = v
            \<and> validate_date self' = Inl InvalidDateError)"
  by (auto simp: set_year_def set_month_def set_day_def Let_def)

text \<open>The amended claim at 28 February 2021 and the day 30.\<close>

theorem setter_raises_after_storing_witness:
  "validate_date \<lparr>p_year = IntV 2021, p_month = IntV 2, p_day = IntV 28\<rparr> = Inr ()
   \<and> set_day \<lparr>p_year = IntV 2021, p_month = IntV 2, p_day = IntV 28\<rparr> (IntV 30)
       = (\<lparr>p_year = IntV 2021, p_month = IntV 2, p_day = IntV 30\<rparr>, Inl InvalidDateError)
   \<and> validate_date \<lparr>p_year = IntV 2021, p_month = IntV 2, p_day = IntV 30\<rparr>
       = Inl InvalidDateError"
proof -
  have v: "validate_date \<lparr>p_year = IntV 2021, p_month = IntV 2, p_day = IntV 28\<rparr> = Inr ()"
    by (simp add: validate_date_def is_leap_year_def)
  have s: "set_day \<lparr>p_year = IntV 2021, p_month = IntV 2, p_day = IntV 28\<rparr> (IntV 30)
      = (\<lparr>p_year = IntV 2021, p_month = IntV 2, p_day = IntV 30\<rparr>, Inl InvalidDateError)"
    by (simp add: set_day_def validate_date_def is_leap_year_def)
  from setter_raises_after_storing
         [OF v, of "IntV 30" "\<lparr>p_year = IntV 2021, p_month = IntV 2, p_day = IntV 30\<rparr>"] s v
  show ?thesis by simp
qed

section \<open>Comparison and difference\<close>

text \<open>
  Claim C8.  For all dates, \<^verbatim>\<open>a >= b\<close> holds exactly when year, month and day of
  \<open>a\<close> are each at least those of \<open>b\<close>, and \<^verbatim>\<open>a <= b\<close> exactly when each is at
  most that of \<open>b\<close>; and the non-strict operators do not agree with the strict ones:
  1 January 2021 and 31 December 2020 are valid dates with \<^verbatim>\<open>a > b\<close> but not
  \<^verbatim>\<open>a >= b\<close>.
\<close>

theorem non_strict_ordering_is_fieldwise:
  "Date_ge a b = (year b \<le> year a \<and> month b \<le> month a \<and> day b \<le> day a)
   \<and> Date_le a b = (year a \<le> year b \<and> month a \<le> month b \<and> day a \<le> day b)
   \<and> Date 2021 1 1 = Inr \<lparr>year = 2021, month = 1, day = 1\<rparr>
   \<and> Date 2020 12 31 = Inr \<lparr>year = 2020, month = 12, day = 31\<rparr>
   \<and> Date_gt \<lparr>year = 2021, month = 1, day = 1\<rparr> \<lparr>year = 2020, month = 12, day = 31\<rparr>
   \<and> \<not> Date_ge \<lparr>year = 2021, month = 1, day = 1\<rparr> \<lparr>year = 2020, month = 12, day = 31\<rparr>"
  by (simp add: Date_ge_def Date_le_def Date_gt_def Date_def validate_date_def is_leap_year_def)

text \<open>
  Claim C1 fails on the code.  In one year, 5 March is after 10 February, yet
  \<^verbatim>\<open>__lt__\<close> holds of them in that order (the day alone is smaller), so
  \<^verbatim>\<open>difference\<close> takes 5 March for the smaller date and the month count between them
  fails its own assertion; in the other order the difference is -24.
\<close>

theorem difference_raises_on_later_month_smaller_day:
  "difference \<lparr>year = 2020, month = 3, day = 5\<rparr> \<lparr>year = 2020, month = 2, day = 10\<rparr>
     = Inl AssertionError
   \<and> difference \<lparr>year = 2020, month = 2, day = 10\<rparr> \<lparr>year = 2020, month = 3, day = 5\<rparr>
     = Inr (- 24)"
  by code_simp

text \<open>
  Claim C9.  The difference of 1 August 2014 and 11 June 2018 is -1410, and 1410 is the
  number of single-day steps that lead from 1 August 2014 to 11 June 2018.
\<close>

theorem difference_2014_2018_is_the_day_count:
  "spec_count_days 2000 \<lparr>year = 2014, month = 8, day = 1\<rparr> \<lparr>year = 2018, month = 6, day = 11\<rparr> 0
     = Some 1410
   \<and> difference \<lparr>year = 2014, month = 8, day = 1\<rparr> \<lparr>year = 2018, month = 6, day = 11\<rparr>
     = Inr (- 1410)"
  by code_simp

section \<open>Shifting by months and days\<close>

text \<open>
  Claim C7.  Adding one month to 31 January 2020 raises \<open>InvalidDateError\<close> (the day
  31 is kept for February), and so does subtracting one month from 31 March 2021.
\<close>

theorem month_shift_keeps_day_and_raises:
  "add_to \<lparr>year = 2020, month = 1, day = 31\<rparr> 0 1 0 = Some (Inl InvalidDateError)
   \<and> subtract_from \<lparr>year = 2021, month = 3, day = 31\<rparr> 0 1 0 = Some (Inl InvalidDateError)"
  by code_simp

lemma subtract_days_loop_returns:
  assumes "subtract_days_loop mapper days cy cm = Some r"
  shows "\<not> (days \<noteq> 0 \<and> total_days_in_month_of mapper cy cm = Some days)"
  by (rule subtract_days_loop.raw_induct
        [where P = "\<lambda>mapper days cy cm r.
                      \<not> (days \<noteq> 0 \<and> total_days_in_month_of mapper cy cm = Some days)",
         OF _ assms])
     (fastforce split: option.splits if_splits)

lemma subtract_days_loop_stuck:
  "days \<noteq> 0 \<Longrightarrow> total_days_in_month_of mapper cy cm = Some days \<Longrightarrow>
   subtract_days_loop mapper days cy cm = None"
  using subtract_days_loop_returns[of mapper days cy cm]
  by (cases "subtract_days_loop mapper days cy cm") auto

lemma subtract_years_1_march_2021:
  "subtract_years [receiver \<lparr>year = 2021, month = 3, day = 1\<rparr>] 0 0 =
     (replicate 2 (receiver \<lparr>year = 2021, month = 3, day = 1\<rparr>), Inr (Suc 0))"
  by code_simp

lemma subtract_months_1_march_2021:
  "subtract_months (replicate 2 (receiver \<lparr>year = 2021, month = 3, day = 1\<rparr>)) (Suc 0) 0 =
     (replicate 4 (receiver \<lparr>year = 2021, month = 3, day = 1\<rparr>), Inr 3)"
  by code_simp

lemma fields_of_1_march_2021:
  "fields_of (replicate 4 (receiver \<lparr>year = 2021, month = 3, day = 1\<rparr>)) 3 =
     Inr \<lparr>year = 2021, month = 3, day = 1\<rparr>"
  by code_simp

lemma february_2021_in_mapper:
  "total_days_in_month_of
     (get_days_per_month_mapper_for_multiple_years (py_range 2020 2022 1)) 2021 2 = Some 28"
  by code_simp

text \<open>
  Claim C3 fails on the code.  Subtracting 29 days from 1 March 2021 never returns: one
  day leads to the end of February, the 28 days that remain are exactly the length of
  February, and for that case the loop of \<^verbatim>\<open>_subtract_days\<close> has no branch.
\<close>

theorem subtract_days_never_returns:
  "subtract_from \<lparr>year = 2021, month = 3, day = 1\<rparr> 0 0 29 = None"
  by (simp add: subtract_from_def subtract_def subtract_years_1_march_2021
        subtract_months_1_march_2021 subtract_days_def fields_of_1_march_2021
        decrement_year_and_month_def outcome_def
        subtract_days_loop_stuck[OF _ february_2021_in_mapper])

section \<open>Shifting a 29 February by years\<close>

lemma fields_of_new [simp]:
  "fields_of (h @ [\<lparr>p_year = IntV y, p_month = IntV m, p_day = IntV d\<rparr>]) (length h) =
     Inr \<lparr>year = y, month = m, day = d\<rparr>"
  by (simp add: fields_of_def)

lemma fields_of_receiver [simp]: "fields_of [receiver d] 0 = Inr d"
  by (simp add: fields_of_def receiver_def)

lemma set_py_range_1: "set (py_range a b 1) = {a..<b}"
proof (induction a b "1::int" rule: py_range.induct)
  case (1 start stop)
  show ?case
  proof (cases "start < stop")
    case True
    with 1 show ?thesis
      by (subst py_range.simps) auto
  next
    case False
    then show ?thesis by (subst py_range.simps) auto
  qed
qed

lemma map_of_fold_update:
  "map_of (fold (\<lambda>y full. AList.update y (g y) full) ys acc) y =
     (if y \<in> set ys then Some (g y) else map_of acc y)"
  by (induction ys arbitrary: acc) (auto simp: update_conv')

lemma map_of_multiple_years:
  "map_of (get_days_per_month_mapper_for_multiple_years ys) y =
     (if y \<in> set ys
      then Some (if is_leap_year y then AList.update 2 29 BASE_MAPPER else BASE_MAPPER)
      else None)"
  unfolding get_days_per_month_mapper_for_multiple_years_def
  by (subst map_of_fold_update) simp

lemma total_days_in_month_of_multiple_years:
  assumes "y \<in> set ys" "1 \<le> m" "m \<le> 12"
  shows "total_days_in_month_of (get_days_per_month_mapper_for_multiple_years ys) y m =
           Some (spec_days_in_month y m)"
  using month_cases[OF assms(2,3)] assms(1)
  by (auto simp: total_days_in_month_of_def map_of_multiple_years BASE_MAPPER_def
        spec_days_in_month_def is_leap_year_iff update_conv')


lemma receiver_eq: "receiver s = \<lparr>p_year = IntV (year s), p_month = IntV (month s), p_day = IntV (day s)\<rparr>"
  by (simp add: receiver_def)

lemma fields_of_new_receiver [simp]: "fields_of (h @ [receiver s]) (length h) = Inr s"
  by (simp add: receiver_eq)

lemma spec_valid_dateD:
  "spec_valid_date s \<Longrightarrow> 1 \<le> year s \<and> 1 \<le> month s \<and> month s \<le> 12 \<and> 1 \<le> day s
     \<and> day s \<le> spec_days_in_month (year s) (month s)"
  by (simp add: spec_valid_date_def)

lemma feb29_leap: "spec_valid_date s \<Longrightarrow> month s = 2 \<Longrightarrow> day s = 29 \<Longrightarrow> spec_is_leap_year (year s)"
  by (auto simp: spec_valid_date_def spec_days_in_month_def split: if_splits)

lemma Date_init_valid:
  "spec_valid_date s \<Longrightarrow>
   Date_init h (IntV (year s)) (IntV (month s)) (IntV (day s)) = (h @ [receiver s], Inr (length h))"
  by (simp add: Date_init_eq spec_valid_date_def receiver_eq)

lemma add_years_0:
  assumes "fields_of h self = Inr s" "spec_valid_date s"
  shows "add_years h self 0 = (h @ [receiver s], Inr (length h))"
  using assms feb29_leap[OF assms(2)]
  by (auto simp: add_years_def Date_init_eq receiver_eq spec_valid_date_def is_leap_year_iff)

lemma subtract_years_0:
  assumes "fields_of h self = Inr s" "spec_valid_date s"
  shows "subtract_years h self 0 = (h @ [receiver s], Inr (length h))"
  using assms feb29_leap[OF assms(2)]
  by (auto simp: subtract_years_def Date_init_eq receiver_eq spec_valid_date_def is_leap_year_iff)

lemma add_months_0:
  assumes "fields_of h self = Inr s" "spec_valid_date s"
  shows "add_months h self 0 = (h @ [receiver s, receiver s], Inr (Suc (length h)))"
proof -
  have r: "1 \<le> month s" "month s \<le> 12"
    using spec_valid_dateD[OF assms(2)] by auto
  have m: "(if month s mod 12 = 0 then 12 else month s mod 12) = month s"
    using r by presburger
  have "Date_init (h @ [receiver s]) (IntV (year s)) (IntV (month s)) (IntV (day s)) =
          ((h @ [receiver s]) @ [receiver s], Inr (length (h @ [receiver s])))"
    by (rule Date_init_valid[OF assms(2)])
  then show ?thesis
    using r
    by (simp add: add_months_def add_years_0[OF assms] NUM_MONTHS_IN_YEAR_def Let_def m
        del: if_split cong: if_cong)
qed

lemma subtract_months_0:
  assumes "fields_of h self = Inr s" "spec_valid_date s"
  shows "subtract_months h self 0 = (h @ [receiver s, receiver s], Inr (Suc (length h)))"
proof -
  have "Date_init (h @ [receiver s]) (IntV (year s)) (IntV (month s)) (IntV (day s)) =
          ((h @ [receiver s]) @ [receiver s], Inr (length (h @ [receiver s])))"
    by (rule Date_init_valid[OF assms(2)])
  then show ?thesis
    using spec_valid_dateD[OF assms(2)]
    by (simp add: subtract_months_def subtract_years_0[OF assms] NUM_MONTHS_IN_YEAR_def Let_def)
qed

lemma add_days_0:
  assumes "fields_of h self = Inr s" "spec_valid_date s"
  shows "add_days h self 0 = Some (h @ [receiver s], Inr (length h))"
proof -
  have "total_days_in_month_of
          (get_days_per_month_mapper_for_multiple_years (py_range (year s) (year s + 2) 1))
          (year s) (month s) = Some (spec_days_in_month (year s) (month s))"
    using spec_valid_dateD[OF assms(2)]
    by (intro total_days_in_month_of_multiple_years) (auto simp: set_py_range_1)
  then show ?thesis
    using spec_valid_dateD[OF assms(2)]
    by (simp add: add_days_def assms(1) Date_init_valid[OF assms(2)])
qed

lemma subtract_days_0:
  assumes "fields_of h self = Inr s" "spec_valid_date s"
  shows "subtract_days h self 0 = Some (h @ [receiver s], Inr (length h))"
  using spec_valid_dateD[OF assms(2)]
  by (simp add: subtract_days_def assms(1) Date_init_valid[OF assms(2)])

lemma add_years_only:
  assumes a: "add_years h self n = (h1, Inr r1)" and f: "fields_of h1 r1 = Inr t" and v: "spec_valid_date t"
  shows "outcome (add h self n 0 0) = Some (Inr t)"
proof -
  have m: "add_months h1 r1 0 = (h1 @ [receiver t, receiver t], Inr (Suc (length h1)))"
    by (rule add_months_0[OF f v])
  have f2: "fields_of (h1 @ [receiver t, receiver t]) (Suc (length h1)) = Inr t"
    using fields_of_new_receiver[of "h1 @ [receiver t]" t] by simp
  have d: "add_days (h1 @ [receiver t, receiver t]) (Suc (length h1)) 0 =
             Some ((h1 @ [receiver t, receiver t]) @ [receiver t], Inr (length (h1 @ [receiver t, receiver t])))"
    by (rule add_days_0[OF f2 v])
  have f3: "fields_of ((h1 @ [receiver t, receiver t]) @ [receiver t]) (length (h1 @ [receiver t, receiver t])) = Inr t"
    by (rule fields_of_new_receiver)
  show ?thesis
    unfolding add_def a by (simp only: m d f3 outcome_def prod.case sum.case option.case)
qed

lemma subtract_years_only:
  assumes a: "subtract_years h self n = (h1, Inr r1)" and f: "fields_of h1 r1 = Inr t" and v: "spec_valid_date t"
  shows "outcome (subtract h self n 0 0) = Some (Inr t)"
proof -
  have m: "subtract_months h1 r1 0 = (h1 @ [receiver t, receiver t], Inr (Suc (length h1)))"
    by (rule subtract_months_0[OF f v])
  have f2: "fields_of (h1 @ [receiver t, receiver t]) (Suc (length h1)) = Inr t"
    using fields_of_new_receiver[of "h1 @ [receiver t]" t] by simp
  have d: "subtract_days (h1 @ [receiver t, receiver t]) (Suc (length h1)) 0 =
             Some ((h1 @ [receiver t, receiver t]) @ [receiver t], Inr (length (h1 @ [receiver t, receiver t])))"
    by (rule subtract_days_0[OF f2 v])
  have f3: "fields_of ((h1 @ [receiver t, receiver t]) @ [receiver t]) (length (h1 @ [receiver t, receiver t])) = Inr t"
    by (rule fields_of_new_receiver)
  show ?thesis
    unfolding subtract_def a by (simp only: m d f3 outcome_def prod.case sum.case option.case)
qed

lemma valid_feb29: "1 \<le> y \<Longrightarrow> spec_is_leap_year y \<Longrightarrow> spec_valid_date \<lparr>year = y, month = 2, day = 29\<rparr>"
  by (simp add: spec_valid_date_def spec_days_in_month_def)

lemma valid_feb28: "1 \<le> y \<Longrightarrow> spec_valid_date \<lparr>year = y, month = 2, day = 28\<rparr>"
  by (simp add: spec_valid_date_def spec_days_in_month_def)

lemma valid_mar1: "1 \<le> y \<Longrightarrow> spec_valid_date \<lparr>year = y, month = 3, day = 1\<rparr>"
  by (simp add: spec_valid_date_def spec_days_in_month_def)

lemma add_years_feb29:
  assumes "spec_valid_date d" "month d = 2" "day d = 29" "0 \<le> n"
  shows "add_to d n 0 0 =
           Some (Inr (if spec_is_leap_year (year d + n)
                      then \<lparr>year = year d + n, month = 2, day = 29\<rparr>
                      else \<lparr>year = year d + n, month = 3, day = 1\<rparr>))"
proof -
  let ?t = "if spec_is_leap_year (year d + n)
            then \<lparr>year = year d + n, month = 2, day = 29\<rparr>
            else \<lparr>year = year d + n, month = 3, day = 1\<rparr>"
  have y: "1 \<le> year d + n" using spec_valid_dateD[OF assms(1)] assms(4) by simp
  have v: "spec_valid_date ?t" using y by (simp add: valid_feb29 valid_mar1)
  have a: "add_years [receiver d] 0 n = ([receiver d] @ [receiver ?t], Inr (length [receiver d]))"
    using assms y Date_init_valid[OF v, of "[receiver d]"]
    by (auto simp: add_years_def is_leap_year_iff)
  show ?thesis
    unfolding add_to_def
    by (rule add_years_only[OF a fields_of_new_receiver v])
qed

lemma subtract_years_feb29:
  assumes "spec_valid_date d" "month d = 2" "day d = 29" "0 \<le> n" "n < year d"
  shows "subtract_from d n 0 0 =
           Some (Inr (if spec_is_leap_year (year d - n)
                      then \<lparr>year = year d - n, month = 2, day = 29\<rparr>
                      else \<lparr>year = year d - n, month = 2, day = 28\<rparr>))"
proof -
  let ?t = "if spec_is_leap_year (year d - n)
            then \<lparr>year = year d - n, month = 2, day = 29\<rparr>
            else \<lparr>year = year d - n, month = 2, day = 28\<rparr>"
  have y: "1 \<le> year d - n" using assms(5) by simp
  have v: "spec_valid_date ?t" using y by (simp add: valid_feb29 valid_feb28)
  have a: "subtract_years [receiver d] 0 n = ([receiver d] @ [receiver ?t], Inr (length [receiver d]))"
    using assms y Date_init_valid[OF v, of "[receiver d]"]
    by (auto simp: subtract_years_def is_leap_year_iff)
  show ?thesis
    unfolding subtract_from_def
    by (rule subtract_years_only[OF a fields_of_new_receiver v])
qed

lemma subtract_years_feb29_before_year_1:
  assumes "month d = 2" "day d = 29" "0 \<le> n" "year d \<le> n"
  shows "subtract_from d n 0 0 = Some (Inl InvalidDateError)"
  using assms
  by (simp add: subtract_from_def subtract_def subtract_years_def Date_init_eq outcome_def)


text \<open>
  Claim C6, as stated, fails: 29 February of year 4 is valid, year 0 is a leap year by the
  rule, and subtracting 4 years raises \<open>InvalidDateError\<close> instead of yielding a
  29 February.
\<close>

theorem subtract_years_below_year_1_raises:
  "spec_valid_date \<lparr>year = 4, month = 2, day = 29\<rparr>
   \<and> spec_is_leap_year (4 - 4)
   \<and> subtract_from \<lparr>year = 4, month = 2, day = 29\<rparr> 4 0 0 = Some (Inl InvalidDateError)"
proof -
  have "spec_valid_date \<lparr>year = 4, month = 2, day = 29\<rparr>"
    by (simp add: valid_feb29 spec_is_leap_year_def)
  moreover have "spec_is_leap_year (4 - 4)"
    by (simp add: spec_is_leap_year_def)
  moreover have "subtract_from \<lparr>year = 4, month = 2, day = 29\<rparr> 4 0 0 = Some (Inl InvalidDateError)"
    by (rule subtract_years_feb29_before_year_1) simp_all
  ultimately show ?thesis by simp
qed

text \<open>
  Claim C6, amended.  For every valid 29 February and every \<open>n \<ge> 0\<close>:
  \<^verbatim>\<open>add(years=n)\<close> yields 29 February of year + n when that is a leap year and 1 March
  of year + n otherwise; \<^verbatim>\<open>subtract(years=n)\<close> yields, when \<open>n\<close> is less than the
  year, 29 February of year - n when that is a leap year and 28 February of year - n
  otherwise, and raises \<open>InvalidDateError\<close> when \<open>n\<close> is the year or more.
\<close>

theorem february_29_year_shift:
  assumes "spec_valid_date d" "month d = 2" "day d = 29" "0 \<le> n"
  shows "add_to d n 0 0 =
           Some (Inr (if spec_is_leap_year (year d + n)
                      then \<lparr>year = year d + n, month = 2, day = 29\<rparr>
                      else \<lparr>year = year d + n, month = 3, day = 1\<rparr>))
       \<and> (n < year d \<longrightarrow>
            subtract_from d n 0 0 =
              Some (Inr (if spec_is_leap_year (year d - n)
                         then \<lparr>year = year d - n, month = 2, day = 29\<rparr>
                         else \<lparr>year = year d - n, month = 2, day = 28\<rparr>)))
       \<and> (year d \<le> n \<longrightarrow> subtract_from d n 0 0 = Some (Inl InvalidDateError))"
  using add_years_feb29[OF assms] subtract_years_feb29[OF assms]
        subtract_years_feb29_before_year_1[OF assms(2,3,4)]
  by blast

text \<open>
  The amended claim at 29 February 2000 and one year: adding gives 1 March 2001,
  subtracting gives 28 February 1999.
\<close>

theorem february_29_year_shift_witness:
  "spec_valid_date \<lparr>year = 2000, month = 2, day = 29\<rparr>
   \<and> add_to \<lparr>year = 2000, month = 2, day = 29\<rparr> 1 0 0
       = Some (Inr \<lparr>year = 2001, month = 3, day = 1\<rparr>)
   \<and> subtract_from \<lparr>year = 2000, month = 2, day = 29\<rparr> 1 0 0
       = Some (Inr \<lparr>year = 1999, month = 2, day = 28\<rparr>)"
proof -
  have v: "spec_valid_date \<lparr>year = 2000, month = 2, day = 29\<rparr>"
    by (simp add: valid_feb29 spec_is_leap_year_def)
  from february_29_year_shift[OF v, of 1] v
  show ?thesis by (simp add: spec_is_leap_year_def)
qed

section \<open>The receiver of add and subtract\<close>

lemma extends_error [simp]: "extends h (h, Inl e)"
  by (simp add: extends_def)

lemma extends_Date_init [simp]: "extends h (Date_init h y m d)"
  by (simp add: extends_def Date_init_eq)

lemma extends_trans:
  assumes "extends h (h1, res1)" "extends h1 (h2, res2)"
  shows "extends h (h2, res2)"
proof -
  from assms have p1: "take (length h) h1 = h" and p2: "take (length h1) h2 = h1"
    by (simp_all add: extends_def)
  have "length (take (length h) h1) = length h"
    using p1 by simp
  then have l: "length h \<le> length h1"
    by (simp add: min_def split: if_splits)
  have "take (length h) h2 = take (length h) (take (length h1) h2)"
    using l by (simp add: min_def)
  then have "take (length h) h2 = h" using p1 p2 by simp
  then show ?thesis
    using assms(2) l by (auto simp: extends_def split: sum.splits)
qed

lemma extends_add_years [simp]: "extends h (add_years h self n)"
  by (simp add: add_years_def split: sum.splits prod.splits)

lemma extends_subtract_years [simp]: "extends h (subtract_years h self n)"
  by (simp add: subtract_years_def split: sum.splits prod.splits)

lemma extends_add_months [simp]: "extends h (add_months h self n)"
proof (cases "add_years h self (n div NUM_MONTHS_IN_YEAR)")
  case (Pair h1 res1)
  then have e: "extends h (h1, res1)" using extends_add_years[of h self "n div NUM_MONTHS_IN_YEAR"] by simp
  have t: "extends h (Date_init h1 y m d)" for y m d
    using extends_trans[OF e, of "fst (Date_init h1 y m d)" "snd (Date_init h1 y m d)"]
          extends_Date_init[of h1 y m d] by simp
  have te: "extends h (h1, Inl x)" for x using e by (simp add: extends_def)
  show ?thesis
    using Pair t te by (simp add: add_months_def Let_def split: sum.splits)
qed

lemma extends_subtract_months [simp]: "extends h (subtract_months h self n)"
proof (cases "subtract_years h self (n div NUM_MONTHS_IN_YEAR)")
  case (Pair h1 res1)
  then have e: "extends h (h1, res1)" using extends_subtract_years[of h self "n div NUM_MONTHS_IN_YEAR"] by simp
  have t: "extends h (Date_init h1 y m d)" for y m d
    using extends_trans[OF e, of "fst (Date_init h1 y m d)" "snd (Date_init h1 y m d)"]
          extends_Date_init[of h1 y m d] by simp
  have te: "extends h (h1, Inl x)" for x using e by (simp add: extends_def)
  show ?thesis
    using Pair t te by (simp add: subtract_months_def Let_def split: sum.splits)
qed

lemma extends_add_days: "add_days h self n = Some out \<Longrightarrow> extends h out"
  by (auto simp: add_days_def Let_def split: sum.splits option.splits if_splits prod.splits)

lemma extends_subtract_days: "subtract_days h self n = Some out \<Longrightarrow> extends h out"
  by (auto simp: subtract_days_def Let_def split: sum.splits option.splits if_splits prod.splits)

lemma extends_add:
  assumes "add h self years months days = Some out"
  shows "extends h out"
proof (cases "add_years h self years")
  case p1: (Pair h1 res1)
  have e1: "extends h (h1, res1)" using extends_add_years[of h self years] p1 by simp
  show ?thesis
  proof (cases res1)
    case (Inl e)
    then show ?thesis using assms p1 e1 by (simp add: add_def)
  next
    case r1: (Inr r1)
    show ?thesis
    proof (cases "add_months h1 r1 months")
      case p2: (Pair h2 res2)
      have e2: "extends h (h2, res2)"
        using extends_trans[OF e1, of h2 res2] extends_add_months[of h1 r1 months] p2 by simp
      show ?thesis
      proof (cases res2)
        case (Inl e)
        then show ?thesis using assms p1 r1 p2 e2 by (simp add: add_def)
      next
        case r2: (Inr r2)
        then have "add_days h2 r2 days = Some out"
          using assms p1 r1 p2 by (simp add: add_def)
        from extends_add_days[OF this] have "extends h2 (fst out, snd out)" by simp
        from extends_trans[OF e2 this] show ?thesis by simp
      qed
    qed
  qed
qed

lemma extends_subtract:
  assumes "subtract h self years months days = Some out"
  shows "extends h out"
proof (cases "subtract_years h self years")
  case p1: (Pair h1 res1)
  have e1: "extends h (h1, res1)" using extends_subtract_years[of h self years] p1 by simp
  show ?thesis
  proof (cases res1)
    case (Inl e)
    then show ?thesis using assms p1 e1 by (simp add: subtract_def)
  next
    case r1: (Inr r1)
    show ?thesis
    proof (cases "subtract_months h1 r1 months")
      case p2: (Pair h2 res2)
      have e2: "extends h (h2, res2)"
        using extends_trans[OF e1, of h2 res2] extends_subtract_months[of h1 r1 months] p2 by simp
      show ?thesis
      proof (cases res2)
        case (Inl e)
        then show ?thesis using assms p1 r1 p2 e2 by (simp add: subtract_def)
      next
        case r2: (Inr r2)
        then have "subtract_days h2 r2 days = Some out"
          using assms p1 r1 p2 by (simp add: subtract_def)
        from extends_subtract_days[OF this] have "extends h2 (fst out, snd out)" by simp
        from extends_trans[OF e2 this] show ?thesis by simp
      qed
    qed
  qed
qed

lemma extends_unchanged:
  assumes "extends h (h', Inr r)" "self < length h"
  shows "r \<noteq> self \<and> length h \<le> r \<and> r < length h' \<and> h' ! self = h ! self
         \<and> take (length h) h' = h"
proof -
  from assms(1) have t: "take (length h) h' = h" and r: "length h \<le> r" "r < length h'"
    by (simp_all add: extends_def)
  have "h' ! self = take (length h) h' ! self" using assms(2) by simp
  then show ?thesis using t r assms(2) by simp
qed

text \<open>
  Claim C10.  When \<^verbatim>\<open>add\<close> or \<^verbatim>\<open>subtract\<close> returns an instance, that instance is
  not the receiver nor any instance that existed before the call, and the receiver (as
  every instance that existed before) holds the fields it held before the call.
\<close>

theorem add_and_subtract_leave_receiver_unchanged:
  assumes "self < length h"
  shows "(add h self ya ma da = Some (ha, Inr ra) \<longrightarrow>
            ra \<noteq> self \<and> length h \<le> ra \<and> ra < length ha \<and> ha ! self = h ! self
            \<and> take (length h) ha = h)
       \<and> (subtract h self ys ms ds = Some (hs, Inr rs) \<longrightarrow>
            rs \<noteq> self \<and> length h \<le> rs \<and> rs < length hs \<and> hs ! self = h ! self
            \<and> take (length h) hs = h)"
  using extends_unchanged[OF extends_add assms] extends_unchanged[OF extends_subtract assms]
  by blast

lemma add_360_days_to_1_january_2014: "add [receiver \<lparr>year = 2014, month = 1, day = 1\<rparr>] 0 0 0 360 =
   Some (replicate 4 (receiver \<lparr>year = 2014, month = 1, day = 1\<rparr>) @ [receiver \<lparr>year = 2014, month = 12, day = 27\<rparr>], Inr 4)"
  by code_simp

lemma subtract_1_day_from_1_january_2014: "subtract [receiver \<lparr>year = 2014, month = 1, day = 1\<rparr>] 0 0 0 1 =
   Some (replicate 4 (receiver \<lparr>year = 2014, month = 1, day = 1\<rparr>) @ [receiver \<lparr>year = 2013, month = 12, day = 31\<rparr>], Inr 4)"
  by code_simp


text \<open>
  Claim C10 at 1 January 2014: adding 360 days returns a new instance, 27 December 2014,
  subtracting one day returns a new instance, 31 December 2013, and the receiver is still
  1 January 2014 after each call.
\<close>

theorem add_and_subtract_leave_receiver_unchanged_witness:
  "add [receiver \<lparr>year = 2014, month = 1, day = 1\<rparr>] 0 0 0 360 =
     Some (replicate 4 (receiver \<lparr>year = 2014, month = 1, day = 1\<rparr>)
             @ [receiver \<lparr>year = 2014, month = 12, day = 27\<rparr>], Inr 4)
   \<and> (replicate 4 (receiver \<lparr>year = 2014, month = 1, day = 1\<rparr>)
        @ [receiver \<lparr>year = 2014, month = 12, day = 27\<rparr>]) ! 0
       = receiver \<lparr>year = 2014, month = 1, day = 1\<rparr>
   \<and> subtract [receiver \<lparr>year = 2014, month = 1, day = 1\<rparr>] 0 0 0 1 =
     Some (replicate 4 (receiver \<lparr>year = 2014, month = 1, day = 1\<rparr>)
             @ [receiver \<lparr>year = 2013, month = 12, day = 31\<rparr>], Inr 4)
   \<and> (replicate 4 (receiver \<lparr>year = 2014, month = 1, day = 1\<rparr>)
        @ [receiver \<lparr>year = 2013, month = 12, day = 31\<rparr>]) ! 0
       = receiver \<lparr>year = 2014, month = 1, day = 1\<rparr>"
proof -
  have l: "(0::nat) < length [receiver \<lparr>year = 2014, month = 1, day = 1\<rparr>]" by simp
  from add_and_subtract_leave_receiver_unchanged
         [OF l, of 0 0 360
            "replicate 4 (receiver \<lparr>year = 2014, month = 1, day = 1\<rparr>)
               @ [receiver \<lparr>year = 2014, month = 12, day = 27\<rparr>]" 4
            0 0 1
            "replicate 4 (receiver \<lparr>year = 2014, month = 1, day = 1\<rparr>)
               @ [receiver \<lparr>year = 2013, month = 12, day = 31\<rparr>]" 4]
       add_360_days_to_1_january_2014 subtract_1_day_from_1_january_2014
  show ?thesis by simp
qed

section \<open>The day of the week\<close>

lemma div_pred:
  fixes y k :: int
  assumes "0 < k"
  shows "y div k = (y - 1) div k + (if y mod k = 0 then 1 else 0)"
proof (cases "y mod k = 0")
  case True
  have "y = k * (y div k) + y mod k" by simp
  then have "y - 1 = k * (y div k - 1) + (k - 1)"
    using True by (simp add: algebra_simps)
  then have "(y - 1) div k = y div k - 1"
    using assms by (intro int_div_pos_eq[where r = "k - 1"]) auto
  then show ?thesis using True by simp
next
  case False
  have "0 \<le> y mod k" "y mod k < k" using assms by simp_all
  then have r: "0 \<le> y mod k - 1" "y mod k - 1 < k" using False by linarith+
  have "y = k * (y div k) + y mod k" by simp
  then have "y - 1 = k * (y div k) + (y mod k - 1)" by linarith
  then have "(y - 1) div k = y div k"
    using r by (intro int_div_pos_eq[where r = "y mod k - 1"]) auto
  then show ?thesis using False by simp
qed

lemma mod_100_imp_mod_4: "(y::int) mod 100 = 0 \<Longrightarrow> y mod 4 = 0"
proof -
  assume "y mod 100 = 0"
  then have "100 dvd y" by (simp add: mod_eq_0_iff_dvd)
  moreover have "(4::int) dvd 100" by simp
  ultimately have "4 dvd y" by (rule dvd_trans[rotated])
  then show ?thesis by (simp add: mod_eq_0_iff_dvd)
qed

lemma mod_400_imp_mod_100: "(y::int) mod 400 = 0 \<Longrightarrow> y mod 100 = 0"
proof -
  assume "y mod 400 = 0"
  then have "400 dvd y" by (simp add: mod_eq_0_iff_dvd)
  moreover have "(100::int) dvd 400" by simp
  ultimately have "100 dvd y" by (rule dvd_trans[rotated])
  then show ?thesis by (simp add: mod_eq_0_iff_dvd)
qed

lemma leap_years_up_to_step:
  "leap_years_up_to y = leap_years_up_to (y - 1) + (if spec_is_leap_year y then 1 else 0)"
proof -
  define a :: int where "a = (if y mod 4 = 0 then 1 else 0)"
  define b :: int where "b = (if y mod 100 = 0 then 1 else 0)"
  define c :: int where "c = (if y mod 400 = 0 then 1 else 0)"
  have d: "y div 4 = (y - 1) div 4 + a" "y div 100 = (y - 1) div 100 + b"
          "y div 400 = (y - 1) div 400 + c"
    unfolding a_def b_def c_def by (rule div_pred, simp)+
  have "a - b + c = (if spec_is_leap_year y then 1 else 0)"
    using mod_100_imp_mod_4[of y] mod_400_imp_mod_100[of y]
    unfolding a_def b_def c_def spec_is_leap_year_def
    by (cases "y mod 4 = 0"; cases "y mod 100 = 0"; cases "y mod 400 = 0") simp_all
  then show ?thesis
    unfolding leap_years_up_to_def using d by linarith
qed

lemma not_leap_year: "y mod 4 \<noteq> 0 \<Longrightarrow> \<not> spec_is_leap_year y"
  by (simp add: spec_is_leap_year_def)

lemma leap_years_up_to_block:
  assumes "s mod 4 = 0"
  shows "leap_years_up_to (s + 1) = leap_years_up_to s"
    and "leap_years_up_to (s + 2) = leap_years_up_to s"
    and "leap_years_up_to (s + 3) = leap_years_up_to s"
proof -
  have "(s + 1) mod 4 \<noteq> 0" "(s + 2) mod 4 \<noteq> 0" "(s + 3) mod 4 \<noteq> 0"
    using assms by presburger+
  then have n: "\<not> spec_is_leap_year (s + 1)" "\<not> spec_is_leap_year (s + 2)"
      "\<not> spec_is_leap_year (s + 3)"
    by (simp_all add: not_leap_year)
  show a: "leap_years_up_to (s + 1) = leap_years_up_to s"
    using leap_years_up_to_step[of "s + 1"] n by simp
  show b: "leap_years_up_to (s + 2) = leap_years_up_to s"
    using leap_years_up_to_step[of "s + 2"] n a by (simp add: add.commute)
  show "leap_years_up_to (s + 3) = leap_years_up_to s"
    using leap_years_up_to_step[of "s + 3"] n b by (simp add: add.commute)
qed

lemma days_before_year:
  "1 \<le> y \<Longrightarrow> sum_list (map spec_days_in_year [1..y - 1]) = 365 * (y - 1) + leap_years_up_to (y - 1)"
proof (induction y rule: int_ge_induct)
  case base
  show ?case by (simp add: leap_years_up_to_def)
next
  case (step i)
  have "[1..i + 1 - 1] = [1..i - 1] @ [i]"
    using step.hyps by (simp add: upto_rec2)
  then show ?case
    using step.IH leap_years_up_to_step[of i]
    by (simp add: spec_days_in_year_def)
qed


lemma leap_years_up_to_four:
  assumes "s mod 4 = 0"
  shows "leap_years_up_to (s + 3) = leap_years_up_to (s - 1) + (if is_leap_year s then 1 else 0)"
  using leap_years_up_to_block(3)[OF assms] leap_years_up_to_step[of s]
  by (simp add: is_leap_year_iff)

lemma count_leap_years_forward_aux:
  assumes "s mod 4 = 0" "s \<le> y"
  shows "fold (\<lambda>y' n. if is_leap_year y' \<and> y' \<noteq> y then n + 1 else n) (py_range s (y + 1) 4) acc =
           acc + leap_years_up_to (y - 1) - leap_years_up_to (s - 1)"
  using assms
proof (induction "nat (y - s)" arbitrary: s acc rule: less_induct)
  case less
  have r: "py_range s (y + 1) 4 = s # py_range (s + 4) (y + 1) 4"
    using less.prems by (subst py_range.simps) simp
  show ?case
  proof (cases "s + 4 \<le> y")
    case True
    have m: "(s + 4) mod 4 = 0" using less.prems(1) by presburger
    have "fold (\<lambda>y' n. if is_leap_year y' \<and> y' \<noteq> y then n + 1 else n) (py_range (s + 4) (y + 1) 4)
            (acc + (if is_leap_year s then 1 else 0)) =
          acc + (if is_leap_year s then 1 else 0) + leap_years_up_to (y - 1)
            - leap_years_up_to (s + 4 - 1)"
      using True by (intro less.hyps[OF _ m]) auto
    moreover have "s + 4 - 1 = s + 3" by simp
    ultimately show ?thesis
      using True leap_years_up_to_four[OF less.prems(1)]
      by (cases "is_leap_year s") (simp_all add: r)
  next
    case False
    have e: "py_range (s + 4) (y + 1) 4 = []"
      using False by (subst py_range.simps) simp
    consider "y = s" | "y = s + 1" | "y = s + 2" | "y = s + 3"
      using False less.prems(2) by linarith
    then have v: "leap_years_up_to (y - 1) - leap_years_up_to (s - 1) =
                    (if is_leap_year s \<and> s \<noteq> y then 1 else 0)"
    proof cases
      case 1
      then show ?thesis by simp
    next
      case 2
      then show ?thesis
        using leap_years_up_to_step[of s] by (simp add: is_leap_year_iff)
    next
      case 3
      then show ?thesis
        using leap_years_up_to_step[of s] leap_years_up_to_block(1)[OF less.prems(1)]
        by (simp add: is_leap_year_iff add.commute)
    next
      case 4
      then show ?thesis
        using leap_years_up_to_step[of s] leap_years_up_to_block(2)[OF less.prems(1)]
        by (simp add: is_leap_year_iff add.commute)
    qed
    have "fold (\<lambda>y' n. if is_leap_year y' \<and> y' \<noteq> y then n + 1 else n) (py_range s (y + 1) 4) acc =
            acc + (if is_leap_year s \<and> s \<noteq> y then 1 else 0)"
      by (simp add: r e)
    then show ?thesis using v by linarith
  qed
qed

lemma count_leap_years_forward:
  assumes "r mod 4 = 0" "r \<le> y"
  shows "count_leap_years (py_range r (y + 1) 4) y = leap_years_up_to (y - 1) - leap_years_up_to (r - 1)"
  unfolding count_leap_years_def
  using count_leap_years_forward_aux[OF assms, of 0] by simp

lemma count_leap_years_backward_aux:
  assumes "s mod 4 = 0" "s < r" "y \<le> s + 4"
  shows "fold (\<lambda>y' n. if is_leap_year y' \<and> y' \<noteq> r then n + 1 else n) (py_range s (y - 1) (- 4)) acc =
           acc + leap_years_up_to (s + 3) - leap_years_up_to (y - 1)"
  using assms
proof (induction "nat (s + 4 - y)" arbitrary: s acc rule: less_induct)
  case less
  show ?case
  proof (cases "y \<le> s")
    case True
    have r: "py_range s (y - 1) (- 4) = s # py_range (s - 4) (y - 1) (- 4)"
      using True by (subst py_range.simps) simp
    have m: "(s - 4) mod 4 = 0" using less.prems(1) by presburger
    have "fold (\<lambda>y' n. if is_leap_year y' \<and> y' \<noteq> r then n + 1 else n) (py_range (s - 4) (y - 1) (- 4))
            (acc + (if is_leap_year s then 1 else 0)) =
          acc + (if is_leap_year s then 1 else 0) + leap_years_up_to (s - 4 + 3)
            - leap_years_up_to (y - 1)"
      using True less.prems(2) by (intro less.hyps[OF _ m]) auto
    moreover have "s - 4 + 3 = s - 1" by simp
    ultimately show ?thesis
      using less.prems(2) leap_years_up_to_four[OF less.prems(1)]
      by (cases "is_leap_year s") (simp_all add: r)
  next
    case False
    have e: "py_range s (y - 1) (- 4) = []"
      using False by (subst py_range.simps) simp
    consider "y - 1 = s" | "y - 1 = s + 1" | "y - 1 = s + 2" | "y - 1 = s + 3"
      using False less.prems(3) by linarith
    then have "leap_years_up_to (y - 1) = leap_years_up_to (s + 3)"
      using leap_years_up_to_block[OF less.prems(1)]
      by cases (simp_all add: add.commute)
    then show ?thesis by (simp add: e)
  qed
qed

lemma count_leap_years_backward:
  assumes "r mod 4 = 0" "y < r"
  shows "count_leap_years (py_range r (y - 1) (- 4)) r = leap_years_up_to (r - 1) - leap_years_up_to (y - 1)"
proof -
  have p: "py_range r (y - 1) (- 4) = r # py_range (r - 4) (y - 1) (- 4)"
    using assms(2) by (subst py_range.simps) simp
  have m: "(r - 4) mod 4 = 0" using assms(1) by presburger
  have "fold (\<lambda>y' n. if is_leap_year y' \<and> y' \<noteq> r then n + 1 else n) (py_range (r - 4) (y - 1) (- 4)) 0 =
          0 + leap_years_up_to (r - 4 + 3) - leap_years_up_to (y - 1)"
    using assms(2) by (intro count_leap_years_backward_aux[OF m]) auto
  moreover have "r - 4 + 3 = r - 1" by simp
  ultimately show ?thesis
    by (simp add: count_leap_years_def p)
qed

lemma wrap7: "(if (a::int) mod 7 = 0 then 7 else a mod 7) = (a - 1) mod 7 + 1"
  by presburger

lemma mod7_cong: "7 dvd (b - a) \<Longrightarrow> (a::int) mod 7 = b mod 7"
  by (simp add: mod_eq_dvd_iff dvd_diff_commute)

lemma dow_forward:
  fixes n c k w :: int
  assumes "w = 365 * n + c + k" "7 dvd k"
  shows "(if (6 + (n + c) mod 7) mod 7 = 0 then 7 else (6 + (n + c) mod 7) mod 7) = (5 + w) mod 7 + 1"
proof -
  have e: "5 + w - (6 + (n + c) mod 7 - 1) = 7 * (52 * n) + ((n + c) - (n + c) mod 7) + k"
    using assms(1) by simp
  have "7 dvd 7 * (52 * n) + ((n + c) - (n + c) mod 7) + k"
    by (intro dvd_add dvd_triv_left dvd_minus_mod assms(2))
  then have "7 dvd 5 + w - (6 + (n + c) mod 7 - 1)"
    unfolding e .
  then have "(6 + (n + c) mod 7 - 1) mod 7 = (5 + w) mod 7"
    by (rule mod7_cong)
  then show ?thesis using wrap7[of "6 + (n + c) mod 7"] by simp
qed

lemma dow_backward:
  fixes n c k w :: int
  assumes "w = k - (365 * n + c)" "7 dvd k"
  shows "(if (6 + (7 - (n + c) mod 7)) mod 7 = 0 then 7 else (6 + (7 - (n + c) mod 7)) mod 7) = (5 + w) mod 7 + 1"
proof -
  have e: "5 + w - (6 + (7 - (n + c) mod 7) - 1) =
             7 * (- 52 * n - 1) + k - ((n + c) - (n + c) mod 7)"
    using assms(1) by simp
  have "7 dvd 7 * (- 52 * n - 1) + k - ((n + c) - (n + c) mod 7)"
    by (intro dvd_diff dvd_add dvd_triv_left dvd_minus_mod assms(2))
  then have "7 dvd 5 + w - (6 + (7 - (n + c) mod 7) - 1)"
    unfolding e .
  then have "(6 + (7 - (n + c) mod 7) - 1) mod 7 = (5 + w) mod 7"
    by (rule mod7_cong)
  then show ?thesis using wrap7[of "6 + (7 - (n + c) mod 7)"] by simp
qed

lemma dow_month:
  fixes j M d f l :: int
  assumes "7 dvd M + f - 1 - l"
  shows "(if (j mod 7 + 1 + (d - f) mod 7 + l) mod 7 = 0 then 7
          else (j mod 7 + 1 + (d - f) mod 7 + l) mod 7) = (j + M + d - 1) mod 7 + 1"
proof -
  have e: "j + M + d - 1 - (j mod 7 + 1 + (d - f) mod 7 + l - 1) =
             (j - j mod 7) + ((d - f) - (d - f) mod 7) + (M + f - 1 - l)"
    by simp
  have "7 dvd (j - j mod 7) + ((d - f) - (d - f) mod 7) + (M + f - 1 - l)"
    by (intro dvd_add dvd_minus_mod assms)
  then have "7 dvd j + M + d - 1 - (j mod 7 + 1 + (d - f) mod 7 + l - 1)"
    unfolding e .
  then have "(j mod 7 + 1 + (d - f) mod 7 + l - 1) mod 7 = (j + M + d - 1) mod 7"
    by (rule mod7_cong)
  then show ?thesis using wrap7[of "j mod 7 + 1 + (d - f) mod 7 + l"] by simp
qed


lemma argmin_fold_bound:
  "i \<le> n \<Longrightarrow>
   fst (fold (\<lambda>(idx, item) (low_idx, low_item).
                if item < low_item then (idx + 1, item) else (low_idx, low_item))
             (enumerate n xs) (i, v)) \<le> n + length xs"
proof (induction xs arbitrary: n i v)
  case Nil
  then show ?case by simp
next
  case (Cons x xs)
  show ?case
  proof (cases "x < v")
    case True
    then show ?thesis using Cons.IH[of "Suc n" "Suc n" x] by simp
  next
    case False
    then show ?thesis using Cons.IH[of i "Suc n" v] Cons.prems by simp
  qed
qed

lemma argmin_in_range: "xs \<noteq> [] \<Longrightarrow> \<exists>i<length xs. argmin xs = Inr i"
proof (cases xs)
  case Nil
  assume "xs \<noteq> []"
  with Nil show ?thesis by simp
next
  case (Cons x xs')
  then show ?thesis using argmin_fold_bound[of 0 0 xs' x] by (simp add: less_Suc_eq_le)
qed

lemma reference_years:
  assumes "r \<in> set YEARS_HAVING_JANUARY_1ST_AS_SATURDAY"
  shows "1 \<le> r" and "r mod 4 = 0" and "is_leap_year r"
    and "7 dvd (365 * (r - 1) + leap_years_up_to (r - 1)) - (365 * 1999 + leap_years_up_to 1999)"
  using assms
  by (auto simp: YEARS_HAVING_JANUARY_1ST_AS_SATURDAY_def is_leap_year_def leap_years_up_to_def)

lemma get_reference_date_details_result:
  "\<exists>r\<in>set YEARS_HAVING_JANUARY_1ST_AS_SATURDAY. get_reference_date_details y = Inr (r, 6, SATURDAY)"
proof -
  let ?ds = "map (\<lambda>y'. \<bar>y - y'\<bar>) YEARS_HAVING_JANUARY_1ST_AS_SATURDAY"
  have "?ds \<noteq> []" by (simp add: YEARS_HAVING_JANUARY_1ST_AS_SATURDAY_def)
  from argmin_in_range[OF this] obtain i
    where i: "i < length YEARS_HAVING_JANUARY_1ST_AS_SATURDAY" "argmin ?ds = Inr i"
    by auto
  let ?r = "YEARS_HAVING_JANUARY_1ST_AS_SATURDAY ! i"
  have m: "?r \<in> set YEARS_HAVING_JANUARY_1ST_AS_SATURDAY" using i(1) by simp
  have "get_reference_date_details y = Inr (?r, 6, SATURDAY)"
    using i reference_years(3)[OF m]
    by (simp add: get_reference_date_details_def index_def getitem_def DAY_NUMBER_TO_NAME_MAPPER_def)
  with m show ?thesis by blast
qed

lemma getitem_day_number:
  assumes "1 \<le> n" "n \<le> 7"
  shows "getitem DAY_NUMBER_TO_NAME_MAPPER n = Inr (spec_weekday_names ! nat (n - 1))"
proof -
  have "n = 1 \<or> n = 2 \<or> n = 3 \<or> n = 4 \<or> n = 5 \<or> n = 6 \<or> n = 7"
    using assms by arith
  then show ?thesis
    by (auto simp: getitem_def DAY_NUMBER_TO_NAME_MAPPER_def spec_weekday_names_def MONDAY_def
          TUESDAY_def WEDNESDAY_def THURSDAY_def FRIDAY_def SATURDAY_def SUNDAY_def)
qed

lemma spec_day_number_january_1st:
  "1 \<le> y \<Longrightarrow> spec_day_number y 1 1 = 365 * (y - 1) + leap_years_up_to (y - 1) + 1"
  by (simp add: spec_day_number_def days_before_year)

lemma spec_day_number_split:
  "spec_day_number y m d =
     spec_day_number y 1 1 + sum_list (map (spec_days_in_month y) [1..m - 1]) + d - 1"
  by (simp add: spec_day_number_def)

lemma january_1st_forward:
  assumes "get_reference_date_details y = Inr (r, 6, nm)" "r < y"
  shows "get_day_of_week_on_january_1st y =
           (case getitem DAY_NUMBER_TO_NAME_MAPPER
                   (if (6 + (y - r + count_leap_years (py_range r (y + 1) 4) y) mod 7) mod 7 = 0
                    then 7
                    else (6 + (y - r + count_leap_years (py_range r (y + 1) 4) y) mod 7) mod 7) of
              Inl e \<Rightarrow> Inl e
            | Inr dow_name \<Rightarrow>
                Inr (if (6 + (y - r + count_leap_years (py_range r (y + 1) 4) y) mod 7) mod 7 = 0
                     then 7
                     else (6 + (y - r + count_leap_years (py_range r (y + 1) 4) y) mod 7) mod 7,
                     dow_name))"
  unfolding get_day_of_week_on_january_1st_def NUM_DAYS_IN_WEEK_def Let_def
  using assms by (simp cong del: sum.case_cong_weak)

lemma january_1st_backward:
  assumes "get_reference_date_details y = Inr (r, 6, nm)" "y < r"
  shows "get_day_of_week_on_january_1st y =
           (case getitem DAY_NUMBER_TO_NAME_MAPPER
                   (if (6 + (7 - (r - y + count_leap_years (py_range r (y - 1) (- 4)) r) mod 7)) mod 7 = 0
                    then 7
                    else (6 + (7 - (r - y + count_leap_years (py_range r (y - 1) (- 4)) r) mod 7)) mod 7) of
              Inl e \<Rightarrow> Inl e
            | Inr dow_name \<Rightarrow>
                Inr (if (6 + (7 - (r - y + count_leap_years (py_range r (y - 1) (- 4)) r) mod 7)) mod 7 = 0
                     then 7
                     else (6 + (7 - (r - y + count_leap_years (py_range r (y - 1) (- 4)) r) mod 7)) mod 7,
                     dow_name))"
  unfolding get_day_of_week_on_january_1st_def NUM_DAYS_IN_WEEK_def Let_def
  using assms by (simp cong del: sum.case_cong_weak)

lemma january_1st:
  assumes "1 \<le> y"
  shows "\<exists>name. get_day_of_week_on_january_1st y =
           Inr ((5 + (spec_day_number y 1 1 - spec_day_number 2000 1 1)) mod 7 + 1, name)"
proof -
  from get_reference_date_details_result[of y] obtain r
    where r: "r \<in> set YEARS_HAVING_JANUARY_1ST_AS_SATURDAY"
      and d: "get_reference_date_details y = Inr (r, 6, SATURDAY)"
    by blast
  note f = reference_years[OF r]
  define k where "k = (365 * (r - 1) + leap_years_up_to (r - 1)) - (365 * 1999 + leap_years_up_to 1999)"
  define w where "w = spec_day_number y 1 1 - spec_day_number 2000 1 1"
  have w: "w = (365 * (y - 1) + leap_years_up_to (y - 1)) - (365 * 1999 + leap_years_up_to 1999)"
    using assms by (simp add: w_def spec_day_number_january_1st)
  have k: "7 dvd k" using f(4) by (simp add: k_def)
  have range: "1 \<le> (5 + w) mod 7 + 1" "(5 + w) mod 7 + 1 \<le> 7"
    by simp_all
  consider "y = r" | "r < y" | "y < r" by linarith
  then show ?thesis
  proof cases
    case 1
    have "w = 365 * 0 + 0 + k" using 1 by (simp add: w k_def)
    from dow_forward[OF this k] have "(5 + w) mod 7 + 1 = 6" by simp
    then show ?thesis
      using 1 d by (simp add: get_day_of_week_on_january_1st_def w_def)
  next
    case 2
    have c: "count_leap_years (py_range r (y + 1) 4) y =
               leap_years_up_to (y - 1) - leap_years_up_to (r - 1)"
      using 2 by (intro count_leap_years_forward f(2)) simp
    have "w = 365 * (y - r) + count_leap_years (py_range r (y + 1) 4) y + k"
      by (simp add: w k_def c)
    from dow_forward[OF this k] show ?thesis
      unfolding january_1st_forward[OF d 2] w_def[symmetric]
      by (simp only: getitem_day_number[OF range] sum.case) blast
  next
    case 3
    have c: "count_leap_years (py_range r (y - 1) (- 4)) r =
               leap_years_up_to (r - 1) - leap_years_up_to (y - 1)"
      using 3 by (intro count_leap_years_backward f(2)) simp
    have "w = k - (365 * (r - y) + count_leap_years (py_range r (y - 1) (- 4)) r)"
      by (simp add: w k_def c)
    from dow_backward[OF this k] show ?thesis
      unfolding january_1st_backward[OF d 3] w_def[symmetric]
      by (simp only: getitem_day_number[OF range] sum.case) blast
  qed
qed


lemma upto_from_1: "[1..numeral n] = 1 # [2..numeral n]"
  by (subst upto.simps) simp

lemma month_offset:
  assumes "1 \<le> m" "m \<le> 12"
  shows "\<exists>f. getitem MONTH_TO_FIRST_SAME_DAY_MAPPER m = Inr f
             \<and> 7 dvd sum_list (map (spec_days_in_month y) [1..m - 1]) + f - 1
                      - (if is_leap_year y \<and> 2 < m then 1 else 0)"
  using month_cases[OF assms]
  by (auto simp: getitem_def MONTH_TO_FIRST_SAME_DAY_MAPPER_def spec_days_in_month_def
        is_leap_year_iff upto_from_1)

lemma get_day_of_week_unfold:
  assumes "get_day_of_week_on_january_1st y = Inr (j, nm)"
      and "getitem MONTH_TO_FIRST_SAME_DAY_MAPPER m = Inr f"
  shows "get_day_of_week y m d =
           getitem DAY_NUMBER_TO_NAME_MAPPER
             (if (j + (d - f) mod 7 + (if is_leap_year y \<and> 2 < m then 1 else 0)) mod 7 = 0 then 7
              else (j + (d - f) mod 7 + (if is_leap_year y \<and> 2 < m then 1 else 0)) mod 7)"
  unfolding get_day_of_week_def NUM_DAYS_IN_WEEK_def Let_def
  using assms by (simp cong del: sum.case_cong_weak)

lemma get_day_of_week_correct:
  assumes "1 \<le> y" "1 \<le> m" "m \<le> 12"
  shows "get_day_of_week y m d = Inr (spec_day_of_week y m d)"
proof -
  define w1 where "w1 = spec_day_number y 1 1 - spec_day_number 2000 1 1"
  define w where "w = spec_day_number y m d - spec_day_number 2000 1 1"
  define M where "M = sum_list (map (spec_days_in_month y) [1..m - 1])"
  define l :: int where "l = (if is_leap_year y \<and> 2 < m then 1 else 0)"
  from january_1st[OF assms(1)] obtain nm
    where j: "get_day_of_week_on_january_1st y = Inr ((5 + w1) mod 7 + 1, nm)"
    unfolding w1_def by blast
  from month_offset[OF assms(2,3), of y] obtain f
    where f: "getitem MONTH_TO_FIRST_SAME_DAY_MAPPER m = Inr f" and dv: "7 dvd M + f - 1 - l"
    unfolding M_def l_def by blast
  have "5 + w1 + M + d - 1 = 5 + w"
    using spec_day_number_split[of y m d] by (simp add: w1_def w_def M_def)
  with dow_month[OF dv, of "5 + w1" d]
  have e: "(if ((5 + w1) mod 7 + 1 + (d - f) mod 7 + l) mod 7 = 0 then 7
            else ((5 + w1) mod 7 + 1 + (d - f) mod 7 + l) mod 7) = (5 + w) mod 7 + 1"
    by simp
  have range: "1 \<le> (5 + w) mod 7 + 1" "(5 + w) mod 7 + 1 \<le> 7"
    by simp_all
  have "get_day_of_week y m d = getitem DAY_NUMBER_TO_NAME_MAPPER ((5 + w) mod 7 + 1)"
    unfolding get_day_of_week_unfold[OF j f] l_def[symmetric] e ..
  then have "get_day_of_week y m d = Inr (spec_weekday_names ! nat ((5 + w) mod 7 + 1 - 1))"
    by (simp only: getitem_day_number[OF range])
  then show ?thesis
    by (simp add: spec_day_of_week_def w_def)
qed

text \<open>
  Claim C4.  For every valid date, \<^verbatim>\<open>day_of_week\<close> returns the name of the weekday
  that the reference computation gives: the days from 1 January 2000, a Saturday, counted
  through the calendar and taken modulo 7.
\<close>

theorem day_of_week_matches_reference:
  assumes "spec_valid_date a"
  shows "day_of_week a = Inr (spec_day_of_week (year a) (month a) (day a))"
  unfolding day_of_week_def
  using spec_valid_dateD[OF assms] by (intro get_day_of_week_correct) simp_all

text \<open>Claim C4 at 1 January 2000: the day of the week is Saturday.\<close>

theorem day_of_week_matches_reference_witness:
  "spec_valid_date \<lparr>year = 2000, month = 1, day = 1\<rparr>
   \<and> day_of_week \<lparr>year = 2000, month = 1, day = 1\<rparr> = Inr ''Saturday''"
proof -
  have v: "spec_valid_date \<lparr>year = 2000, month = 1, day = 1\<rparr>"
    by (simp add: spec_valid_date_def spec_days_in_month_def)
  have "spec_day_of_week 2000 1 1 = ''Saturday''"
    by (simp add: spec_day_of_week_def spec_weekday_names_def)
  with day_of_week_matches_reference[OF v] v show ?thesis by simp
qed

end
